theory Spec2Isabelle
  imports Complex_Main "HOL-Library.Multiset"
begin

section \<open>Round-robin host selection (\<open>getLuckyUser\<close>)\<close>

text \<open>
  The development embeds the four functions of the host selector:
  \<open>getUsersBasedOnWeights\<close>, \<open>getUsersWithHighestPriority\<close>,
  \<open>leastRecentlyBookedUser\<close> and \<open>getLuckyUser\<close>.

  Conventions of the embedding.
  \<^item> Identifiers, priorities, weights and weight adjustments are database integers
    (\<open>int\<close>); a field that may be \<open>null\<close> or \<open>undefined\<close> is an \<open>option\<close>.
  \<^item> A \<open>Date\<close> is its time value, the milliseconds since the Unix epoch, an \<open>int\<close>
    (negative before 1970); \<open>new Date(0)\<close> is \<open>0\<close>.
  \<^item> A JavaScript number that is computed by the code is a \<open>jsnum\<close>: a finite
    IEEE-754 double (the rational it denotes), one of the two infinities, or \<open>NaN\<close>.
    Division, multiplication and subtraction round their exact result to the nearest
    double, ties to even (\<open>toDouble\<close>). The integers read from the database are safe
    integers, which a double holds exactly, and so are the sums and counts of them; the
    sign of a zero is not kept (\<open>===\<close> and \<open>Math.max\<close> do not tell the zeros
    apart, and the only divisor is a sum of integers).
  \<^item> The two reads of the outside world are parameters: the rows of the user table that
    \<open>prisma.user.findMany\<close> queries (\<open>dbUser list\<close>), and the array that
    \<open>BookingRepository.getAllBookingsOfUsers\<close> returns (\<open>booking list\<close>).
  \<^item> \<open>Math.random\<close> and the library sort make the last stage nondeterministic; that
    stage and the entry point are relations between the inputs and a result.
\<close>

subsection \<open>Data\<close>

record user =
  user_id :: int
  email :: string
  priority :: "int option"
  weight :: "int option"
  weightAdjustment :: "int option"

record rrUser =
  rr_id :: int
  rr_email :: string

record rrHost =
  host_user :: rrUser
  host_weight :: "int option"
  host_weightAdjustment :: "int option"

record eventType =
  eventType_id :: int
  isRRWeightsEnabled :: bool

text \<open>\<open>PartialBooking\<close>; its \<open>status\<close> is never read and is left out. An attendee is
  an object with the single field \<open>email: string | null\<close>.\<close>

datatype attendee = Attendee (attendee_email: "string option")

record booking =
  booking_id :: int
  createdAt :: int
  userId :: "int option"
  attendees :: "attendee list"

text \<open>\<open>GetLuckyUserParams\<close>.\<close>

record params =
  availableUsers :: "user list"
  eventType :: eventType
  allRRHosts :: "rrHost list"

text \<open>The rows read by \<open>prisma.user.findMany\<close>: a user with its bookings, of which the
  query looks at the creation time, the event type, the attendees' \<open>noShow\<close> flags and
  \<open>noShowHost\<close>.\<close>

record dbBooking =
  db_createdAt :: int
  db_eventTypeId :: "int option"
  db_attendeeNoShows :: "bool option list"
  db_noShowHost :: "bool option"

record dbUser =
  db_id :: int
  db_bookings :: "dbBooking list"

datatype error = UnableToFindUsers

subsection \<open>JavaScript numbers, \<open>===\<close> and \<open>Math.max\<close>\<close>

datatype jsnum = NaN | NegInfinity | Finite rat | PosInfinity

text \<open>\<open>a === b\<close> on numbers: \<open>NaN\<close> equals nothing, not even itself.\<close>

fun js_strict_eq :: "jsnum \<Rightarrow> jsnum \<Rightarrow> bool" where
  "js_strict_eq NaN b = False"
| "js_strict_eq a NaN = False"
| "js_strict_eq a b = (a = b)"

fun js_max2 :: "jsnum \<Rightarrow> jsnum \<Rightarrow> jsnum" where
  "js_max2 NaN b = NaN"
| "js_max2 a NaN = NaN"
| "js_max2 PosInfinity b = PosInfinity"
| "js_max2 a PosInfinity = PosInfinity"
| "js_max2 NegInfinity b = b"
| "js_max2 a NegInfinity = a"
| "js_max2 (Finite p) (Finite q) = Finite (max p q)"

text \<open>\<open>Math.max(...xs)\<close>: \<open>-Infinity\<close> for no argument, \<open>NaN\<close> as soon as one
  argument is \<open>NaN\<close>.\<close>

definition Math_max :: "jsnum list \<Rightarrow> jsnum" where
  "Math_max xs = foldl js_max2 NegInfinity xs"

text \<open>\<open>x <= y\<close> on numbers: false as soon as one side is \<open>NaN\<close>.\<close>

fun js_le :: "jsnum \<Rightarrow> jsnum \<Rightarrow> bool" where
  "js_le NaN y = False"
| "js_le x NaN = False"
| "js_le NegInfinity y = True"
| "js_le x PosInfinity = True"
| "js_le (Finite p) (Finite q) = (p \<le> q)"
| "js_le x y = False"

text \<open>
  Rounding to a double. \<open>bitLength n\<close> is the number of binary digits of \<open>n\<close>,
  and \<open>binaryExponent a\<close>, for \<open>0 < a\<close>, is the integer \<open>e\<close> with
  \<open>2 ^ e \<le> a < 2 ^ (e + 1)\<close>. \<open>pow2 k\<close> is the power of two with an integer
  exponent, and \<open>roundHalfEven\<close> rounds to the nearest integer, a tie to the even
  one.
\<close>

fun bitLength :: "nat \<Rightarrow> nat" where
  "bitLength n = (if n = 0 then 0 else Suc (bitLength (n div 2)))"

declare bitLength.simps [simp del]

definition binaryExponent :: "rat \<Rightarrow> int" where
  "binaryExponent a =
     (if 1 \<le> a then int (bitLength (nat \<lfloor>a\<rfloor>)) - 1
      else - int (bitLength (nat (\<lceil>1 / a\<rceil> - 1))))"

definition pow2 :: "int \<Rightarrow> rat" where
  "pow2 k = (if 0 \<le> k then 2 ^ nat k else 1 / 2 ^ nat (- k))"

definition roundHalfEven :: "rat \<Rightarrow> int" where
  "roundHalfEven x =
     (let m = \<lfloor>x\<rfloor>; r = x - of_int m
      in if r < 1 / 2 then m else if 1 / 2 < r then m + 1 else if even m then m else m + 1)"

text \<open>
  \<open>toDouble q\<close> is the binary64 number nearest to the rational \<open>q\<close>. A double
  has 53 significant binary digits: in the binade of exponent \<open>e\<close> the doubles are the
  multiples of \<open>2 ^ (e - 52)\<close>; below \<open>2 ^ (- 1022)\<close> (the subnormal range) they are
  the multiples of \<open>2 ^ (- 1074)\<close>. A result of magnitude \<open>2 ^ 1024\<close> or more is an
  infinity.
\<close>

definition toDouble :: "rat \<Rightarrow> jsnum" where
  "toDouble q =
     (if q = 0 then Finite 0
      else let a = \<bar>q\<bar>;
               e = max (binaryExponent a) (- 1022);
               ulp = pow2 (e - 52);
               r = of_int (roundHalfEven (a / ulp)) * ulp
           in if pow2 1024 \<le> r then (if 0 < q then PosInfinity else NegInfinity)
              else Finite (if 0 < q then r else - r))"

text \<open>\<open>a / b\<close> for two integers: division by zero gives an infinity, \<open>0 / 0\<close> gives
  \<open>NaN\<close>.\<close>

definition js_div :: "int \<Rightarrow> int \<Rightarrow> jsnum" where
  "js_div a b =
     (if b = 0 then (if a = 0 then NaN else if 0 < a then PosInfinity else NegInfinity)
      else toDouble (of_int a / of_int b))"

text \<open>\<open>n * x\<close> for an integer \<open>n\<close>: zero times an infinity is \<open>NaN\<close>.\<close>

fun js_mul :: "int \<Rightarrow> jsnum \<Rightarrow> jsnum" where
  "js_mul n NaN = NaN"
| "js_mul n (Finite q) = toDouble (of_int n * q)"
| "js_mul n PosInfinity = (if n = 0 then NaN else if 0 < n then PosInfinity else NegInfinity)"
| "js_mul n NegInfinity = (if n = 0 then NaN else if 0 < n then NegInfinity else PosInfinity)"

text \<open>\<open>x - k\<close> for an integer \<open>k\<close>.\<close>

fun js_sub :: "jsnum \<Rightarrow> int \<Rightarrow> jsnum" where
  "js_sub NaN k = NaN"
| "js_sub (Finite q) k = toDouble (q - of_int k)"
| "js_sub PosInfinity k = PosInfinity"
| "js_sub NegInfinity k = NegInfinity"

text \<open>\<open>x ?? d\<close>.\<close>

definition nullish :: "'a option \<Rightarrow> 'a \<Rightarrow> 'a" where
  "nullish x d = (case x of None \<Rightarrow> d | Some v \<Rightarrow> v)"

subsection \<open>\<open>getUsersBasedOnWeights\<close>\<close>

definition allWeightAdjustments :: "rrHost list \<Rightarrow> int" where
  "allWeightAdjustments hosts =
     foldl (\<lambda>sum host. sum + nullish (host_weightAdjustment host) 0) 0 hosts"

definition totalWeight :: "rrHost list \<Rightarrow> int" where
  "totalWeight hosts = foldl (\<lambda>sum host. sum + nullish (host_weight host) 100) 0 hosts"

definition userBookings :: "user \<Rightarrow> booking list \<Rightarrow> booking list" where
  "userBookings u bookings =
     filter (\<lambda>b. userId b = Some (user_id u)
                \<or> list_ex (\<lambda>a. attendee_email a = Some (email u)) (attendees b)) bookings"

definition bookingShortfall :: "rrHost list \<Rightarrow> booking list \<Rightarrow> user \<Rightarrow> jsnum" where
  "bookingShortfall hosts bookings u =
     (let targetPercentage = js_div (nullish (weight u) 100) (totalWeight hosts);
          targetNumberOfBookings =
            js_mul (int (length bookings) + allWeightAdjustments hosts) targetPercentage
      in js_sub targetNumberOfBookings
           (int (length (userBookings u bookings)) + nullish (weightAdjustment u) 0))"

definition getUsersBasedOnWeights :: "user list \<Rightarrow> booking list \<Rightarrow> rrHost list \<Rightarrow> user list" where
  "getUsersBasedOnWeights users bookings hosts =
     (let usersWithBookingShortfalls = map (\<lambda>u. (u, bookingShortfall hosts bookings u)) users;
          maxShortfall = Math_max (map snd usersWithBookingShortfalls);
          userIdsWithMaxShortfall =
            set (map (\<lambda>us. user_id (fst us))
                   (filter (\<lambda>us. js_strict_eq (snd us) maxShortfall) usersWithBookingShortfalls))
      in filter (\<lambda>u. user_id u \<in> userIdsWithMaxShortfall) users)"

subsection \<open>\<open>getUsersWithHighestPriority\<close>\<close>

definition highestPriority :: "user list \<Rightarrow> jsnum" where
  "highestPriority users = Math_max (map (\<lambda>u. Finite (of_int (nullish (priority u) 2))) users)"

definition getUsersWithHighestPriority :: "user list \<Rightarrow> user list" where
  "getUsersWithHighestPriority users =
     filter (\<lambda>u. (case priority u of
                    Some p \<Rightarrow> js_strict_eq (Finite (of_int p)) (highestPriority users)
                  | None \<Rightarrow> js_strict_eq (highestPriority users) (Finite 2))) users"

subsection \<open>\<open>leastRecentlyBookedUser\<close>\<close>

text \<open>The \<open>where\<close> clause of the query on a user's bookings.\<close>

definition organizerBookingMatches :: "int \<Rightarrow> dbBooking \<Rightarrow> bool" where
  "organizerBookingMatches etId b \<longleftrightarrow>
     db_eventTypeId b = Some etId
     \<and> list_ex (\<lambda>n. n = Some False) (db_attendeeNoShows b)
     \<and> (db_noShowHost b = Some False \<or> db_noShowHost b = None)"

text \<open>\<open>orderBy: { createdAt: "desc" }, take: 1\<close>.\<close>

definition lastCreated :: "int \<Rightarrow> dbBooking list \<Rightarrow> int list" where
  "lastCreated etId bs =
     take 1 (rev (sort (map db_createdAt (filter (organizerBookingMatches etId) bs))))"

definition organizersWithLastCreated :: "dbUser list \<Rightarrow> user list \<Rightarrow> int \<Rightarrow> (int \<times> int list) list" where
  "organizersWithLastCreated db users etId =
     map (\<lambda>r. (db_id r, lastCreated etId (db_bookings r)))
       (filter (\<lambda>r. db_id r \<in> set (map user_id users)) db)"

text \<open>\<open>user.bookings[0]?.createdAt || new Date(0)\<close>: a \<open>Date\<close> is an object and so
  truthy, the default is taken exactly when the user has no such booking.\<close>

definition organizerIdAndAtCreatedPair :: "(int \<times> int list) list \<Rightarrow> (int \<rightharpoonup> int)" where
  "organizerIdAndAtCreatedPair rows =
     foldl (\<lambda>keyValuePair r.
              keyValuePair(fst r \<mapsto> (case snd r of [] \<Rightarrow> 0 | c # _ \<Rightarrow> c)))
       Map.empty rows"

text \<open>\<open>x > y\<close> and \<open>x < y\<close> where \<open>x\<close> may be \<open>undefined\<close> (a key that the object does
  not have): a comparison with \<open>undefined\<close> is false.\<close>

fun date_gt :: "int option \<Rightarrow> int option \<Rightarrow> bool" where
  "date_gt (Some s) (Some t) = (t < s)"
| "date_gt _ _ = False"

fun date_lt :: "int option \<Rightarrow> int option \<Rightarrow> bool" where
  "date_lt (Some s) (Some t) = (s < t)"
| "date_lt _ _ = False"

text \<open>The body of \<open>availableUsers.forEach\<close> for one booking and one user.\<close>

definition attendeeVisit :: "(int \<rightharpoonup> int) \<Rightarrow> booking \<Rightarrow> (int \<rightharpoonup> int) \<Rightarrow> user \<Rightarrow> (int \<rightharpoonup> int)" where
  "attendeeVisit organizers b aggregate u =
     (if aggregate (user_id u) \<noteq> None then aggregate
      else if Some (email u) \<notin> set (map attendee_email (attendees b)) then aggregate
      else if date_gt (organizers (user_id u)) (Some (createdAt b)) then aggregate
      else aggregate(user_id u \<mapsto> createdAt b))"

definition attendeeUserIdAndAtCreatedPair ::
    "(int \<rightharpoonup> int) \<Rightarrow> user list \<Rightarrow> booking list \<Rightarrow> (int \<rightharpoonup> int)" where
  "attendeeUserIdAndAtCreatedPair organizers users bookings =
     foldl (\<lambda>aggregate b. foldl (attendeeVisit organizers b) aggregate users) Map.empty bookings"

text \<open>The spread \<open>{...organizerIdAndAtCreatedPair, ...attendeeUserIdAndAtCreatedPair}\<close>:
  the second object wins on a common key.\<close>

definition userIdAndAtCreatedPair ::
    "dbUser list \<Rightarrow> user list \<Rightarrow> int \<Rightarrow> booking list \<Rightarrow> (int \<rightharpoonup> int)" where
  "userIdAndAtCreatedPair db users etId bookings =
     (let organizers = organizerIdAndAtCreatedPair (organizersWithLastCreated db users etId)
      in organizers ++ attendeeUserIdAndAtCreatedPair organizers users bookings)"

text \<open>The comparison function of the sort; \<open>coin\<close> is \<open>Math.random() > 0.5\<close>.\<close>

definition compareFn :: "(int \<rightharpoonup> int) \<Rightarrow> bool \<Rightarrow> user \<Rightarrow> user \<Rightarrow> int" where
  "compareFn m coin a b =
     (if date_gt (m (user_id a)) (m (user_id b)) then 1
      else if date_lt (m (user_id a)) (m (user_id b)) then - 1
      else if coin then 1 else - 1)"

text \<open>No comparison of two elements at different positions of the array asks for the coin.\<close>

definition coinFree :: "(int \<rightharpoonup> int) \<Rightarrow> user list \<Rightarrow> bool" where
  "coinFree m xs =
     sorted_wrt (\<lambda>a b. compareFn m True a b = compareFn m False a b
                    \<and> compareFn m True b a = compareFn m False b a) xs"

text \<open>
  \<open>Array.prototype.sort\<close> with this comparison function. The array after the sort is a
  permutation of the array before. When no coin is flipped the comparison function is a
  strict order of the elements and the array is in that order; otherwise the comparison
  function is not consistent and the order is left to the implementation: any
  permutation may result.
\<close>

definition sortOutcome :: "(int \<rightharpoonup> int) \<Rightarrow> user list \<Rightarrow> user list \<Rightarrow> bool" where
  "sortOutcome m xs ys \<longleftrightarrow>
     mset ys = mset xs
     \<and> (coinFree m xs \<longrightarrow> sorted_wrt (\<lambda>a b. compareFn m False a b < 0) ys)"

text \<open>\<open>xs[0]\<close>: \<open>undefined\<close> (here \<open>None\<close>) on the empty array.\<close>

definition first :: "'a list \<Rightarrow> 'a option" where
  "first xs = (case xs of [] \<Rightarrow> None | x # _ \<Rightarrow> Some x)"

text \<open>\<open>!obj\<close> for an object: every object, also the empty one, is truthy. The
  \<open>throw\<close> guarded by \<open>!userIdAndAtCreatedPair\<close> is kept as a branch.\<close>

definition objectIsTruthy :: "(int \<rightharpoonup> int) \<Rightarrow> bool" where
  "objectIsTruthy obj = True"

inductive leastRecentlyBookedUser ::
    "dbUser list \<Rightarrow> user list \<Rightarrow> eventType \<Rightarrow> booking list \<Rightarrow> error + user option \<Rightarrow> bool"
  for db users et bookings where
  thrown:
    "\<not> objectIsTruthy (userIdAndAtCreatedPair db users (eventType_id et) bookings)
     \<Longrightarrow> leastRecentlyBookedUser db users et bookings (Inl UnableToFindUsers)"
| sorted:
    "objectIsTruthy (userIdAndAtCreatedPair db users (eventType_id et) bookings)
     \<Longrightarrow> sortOutcome (userIdAndAtCreatedPair db users (eventType_id et) bookings) users ys
     \<Longrightarrow> leastRecentlyBookedUser db users et bookings (Inr (first ys))"

subsection \<open>\<open>getLuckyUser\<close>\<close>

text \<open>The candidates after the optional weight stage, and after the priority stage.\<close>

definition possibleLuckyUsers :: "params \<Rightarrow> booking list \<Rightarrow> user list" where
  "possibleLuckyUsers p bookings =
     (if isRRWeightsEnabled (eventType p)
      then getUsersBasedOnWeights (availableUsers p) bookings (allRRHosts p)
      else availableUsers p)"

definition highestPriorityUsers :: "params \<Rightarrow> booking list \<Rightarrow> user list" where
  "highestPriorityUsers p bookings = getUsersWithHighestPriority (possibleLuckyUsers p bookings)"

text \<open>
  \<open>getLuckyUser distributionAlgorithm p db allBookings r\<close>: the call may complete with
  \<open>r\<close>, an error thrown (\<open>Inl\<close>) or the value returned (\<open>Inr\<close>, \<open>None\<close> for
  \<open>undefined\<close>). \<open>allBookings\<close> is what \<open>getAllBookingsOfUsers\<close> returned. The
  \<open>switch\<close> has the single case \<open>"MAXIMIZE_AVAILABILITY"\<close> and no default.
\<close>

definition getLuckyUser ::
    "string \<Rightarrow> params \<Rightarrow> dbUser list \<Rightarrow> booking list \<Rightarrow> error + user option \<Rightarrow> bool" where
  "getLuckyUser distributionAlgorithm p db allBookings r \<longleftrightarrow>
     (if length (availableUsers p) = 1 then r = Inr (first (availableUsers p))
      else if distributionAlgorithm = ''MAXIMIZE_AVAILABILITY''
        then leastRecentlyBookedUser db (highestPriorityUsers p allBookings) (eventType p) allBookings r
      else r = Inr None)"

subsection \<open>Notions of the specification\<close>

text \<open>
  The notions in which the specification states its properties, written from its words
  and compared with the functions above in the theorems.

  The effective priority of a candidate: its priority, tier 2 when none is set.
\<close>

definition effectivePriority :: "user \<Rightarrow> int" where
  "effectivePriority u = (case priority u of None \<Rightarrow> 2 | Some p \<Rightarrow> p)"




text \<open>A safe integer: one below \<open>2 ^ 53\<close> in magnitude, which a double holds exactly
  (\<open>Number.MAX_SAFE_INTEGER\<close>).\<close>

definition safeInteger :: "int \<Rightarrow> bool" where
  "safeInteger n \<longleftrightarrow> \<bar>n\<bar> \<le> 2 ^ 53 - 1"


text \<open>
  The test that the attendee scan applies to a booking for the candidate with id \<open>k\<close>
  and address \<open>e\<close>.
\<close>

definition considered :: "(int \<rightharpoonup> int) \<Rightarrow> int \<Rightarrow> string \<Rightarrow> booking \<Rightarrow> bool" where
  "considered organizers k e b \<longleftrightarrow>
     Some e \<in> attendee_email ` set (attendees b) \<and> \<not> date_gt (organizers k) (Some (createdAt b))"

text \<open>
  In a scan from the most recent booking on, the first booking that lists the candidate
  among its attendees and was created strictly after the time \<open>t0\<close>.
\<close>

definition mostRecentAttendeeBooking :: "int \<Rightarrow> user \<Rightarrow> booking list \<Rightarrow> booking option" where
  "mostRecentAttendeeBooking t0 c bookings =
     find (\<lambda>b. Some (email c) \<in> attendee_email ` set (attendees b) \<and> t0 < createdAt b) bookings"


subsection \<open>Sample inputs\<close>

text \<open>
  Concrete hosts, rosters, bookings and database rows on which the theorems are
  instantiated. \<open>userA\<close> and \<open>userB\<close> are the hosts of the specification's
  scenarios A and C; \<open>userC\<close> has no priority, no weight and no booking;
  \<open>userZ1\<close> and \<open>userZ2\<close> belong to a roster whose weights are all zero;
  \<open>userT1\<close> and \<open>userT2\<close> belong to a roster of three hosts with the weights 50,
  200 and 50 and two bookings, one organized by \<open>userT2\<close> and one by the third
  host. The event type has id 7.
\<close>

definition userA :: user where
  "userA = \<lparr>user_id = 1, email = ''a@example.com'', priority = Some 1, weight = Some 200, weightAdjustment = None\<rparr>"
definition userB :: user where
  "userB = \<lparr>user_id = 2, email = ''b@example.com'', priority = Some 2, weight = Some 100, weightAdjustment = None\<rparr>"
definition userC :: user where
  "userC = \<lparr>user_id = 3, email = ''c@example.com'', priority = None, weight = None, weightAdjustment = None\<rparr>"
definition userZ1 :: user where
  "userZ1 = \<lparr>user_id = 4, email = ''z1@example.com'', priority = None, weight = Some 0, weightAdjustment = None\<rparr>"
definition userZ2 :: user where
  "userZ2 = \<lparr>user_id = 5, email = ''z2@example.com'', priority = None, weight = Some 0, weightAdjustment = None\<rparr>"

definition sampleRoster :: "rrHost list" where
  "sampleRoster = [\<lparr>host_user = \<lparr>rr_id = 1, rr_email = ''a@example.com''\<rparr>, host_weight = Some 200, host_weightAdjustment = None\<rparr>,
             \<lparr>host_user = \<lparr>rr_id = 2, rr_email = ''b@example.com''\<rparr>, host_weight = Some 100, host_weightAdjustment = None\<rparr>]"
definition zeroRoster :: "rrHost list" where
  "zeroRoster = [\<lparr>host_user = \<lparr>rr_id = 4, rr_email = ''z1@example.com''\<rparr>, host_weight = Some 0, host_weightAdjustment = None\<rparr>,
             \<lparr>host_user = \<lparr>rr_id = 5, rr_email = ''z2@example.com''\<rparr>, host_weight = Some 0, host_weightAdjustment = None\<rparr>]"

definition sampleHistory :: "booking list" where
  "sampleHistory = [\<lparr>booking_id = 14, createdAt = 40, userId = Some 1, attendees = [Attendee (Some ''x@example.com'')]\<rparr>,
              \<lparr>booking_id = 13, createdAt = 30, userId = Some 2, attendees = [Attendee (Some ''x@example.com'')]\<rparr>,
              \<lparr>booking_id = 12, createdAt = 20, userId = Some 2, attendees = [Attendee None]\<rparr>,
              \<lparr>booking_id = 11, createdAt = 10, userId = Some 2, attendees = []\<rparr>]"

definition attendeeHistory :: "booking list" where
  "attendeeHistory = [\<lparr>booking_id = 23, createdAt = 120, userId = Some 1, attendees = [Attendee (Some ''b@example.com'')]\<rparr>,
               \<lparr>booking_id = 22, createdAt = 110, userId = Some 1, attendees = [Attendee (Some ''x@example.com''), Attendee (Some ''b@example.com'')]\<rparr>,
               \<lparr>booking_id = 21, createdAt = 90, userId = Some 1, attendees = [Attendee (Some ''b@example.com'')]\<rparr>]"

definition sampleDb :: "dbUser list" where
  "sampleDb = [\<lparr>db_id = 2, db_bookings = [\<lparr>db_createdAt = 100, db_eventTypeId = Some 7, db_attendeeNoShows = [Some False], db_noShowHost = None\<rparr>]\<rparr>,
               \<lparr>db_id = 3, db_bookings = []\<rparr>]"
definition earlyDb :: "dbUser list" where
  "earlyDb = [\<lparr>db_id = 2, db_bookings = [\<lparr>db_createdAt = - 1, db_eventTypeId = Some 7, db_attendeeNoShows = [Some False], db_noShowHost = Some False\<rparr>]\<rparr>,
               \<lparr>db_id = 3, db_bookings = []\<rparr>]"




definition paramsA :: params where
  "paramsA = \<lparr>availableUsers = [userA, userB], eventType = \<lparr>eventType_id = 7, isRRWeightsEnabled = False\<rparr>, allRRHosts = sampleRoster\<rparr>"
definition paramsB :: params where
  "paramsB = \<lparr>availableUsers = [userB, userC], eventType = \<lparr>eventType_id = 7, isRRWeightsEnabled = False\<rparr>, allRRHosts = sampleRoster\<rparr>"
definition paramsOne :: params where
  "paramsOne = \<lparr>availableUsers = [userA], eventType = \<lparr>eventType_id = 7, isRRWeightsEnabled = False\<rparr>, allRRHosts = sampleRoster\<rparr>"
definition paramsEmpty :: params where
  "paramsEmpty = \<lparr>availableUsers = [], eventType = \<lparr>eventType_id = 7, isRRWeightsEnabled = True\<rparr>, allRRHosts = sampleRoster\<rparr>"
definition paramsZero :: params where
  "paramsZero = \<lparr>availableUsers = [userZ1, userZ2], eventType = \<lparr>eventType_id = 7, isRRWeightsEnabled = True\<rparr>, allRRHosts = zeroRoster\<rparr>"


section \<open>Auxiliary facts\<close>

subsection \<open>\<open>Math.max\<close> on finite numbers, and the priority filter\<close>

lemma js_max2_Finite_fold:
  "foldl js_max2 (Finite a) (map (\<lambda>x. Finite (g x)) xs) = Finite (Max (insert a (g ` set xs)))"
proof (induction xs arbitrary: a)
  case Nil
  then show ?case by simp
next
  case (Cons x xs)
  have "Max (insert (max a (g x)) (g ` set xs)) = Max (insert a (insert (g x) (g ` set xs)))"
    by (cases "set xs = {}") (simp_all add: max.assoc)
  with Cons show ?case by simp
qed

lemma Math_max_Finite:
  "Math_max (map (\<lambda>x. Finite (g x)) xs) =
     (if xs = [] then NegInfinity else Finite (Max (g ` set xs)))"
proof (cases xs)
  case Nil
  then show ?thesis by (simp add: Math_max_def)
next
  case (Cons x ys)
  then show ?thesis
    using js_max2_Finite_fold [of "g x" g ys] by (simp add: Math_max_def)
qed

lemma js_strict_eq_Finite [simp]: "js_strict_eq (Finite p) (Finite q) = (p = q)"
  by simp

lemma highestPriority_eq:
  "highestPriority users =
     (if users = [] then NegInfinity
      else Finite (of_int (Max ((\<lambda>u. nullish (priority u) 2) ` set users))))"
proof -
  have "mono (of_int :: int \<Rightarrow> rat)" by (simp add: mono_def)
  then have "users \<noteq> [] \<Longrightarrow>
      Max ((\<lambda>u. (of_int (nullish (priority u) 2) :: rat)) ` set users)
        = of_int (Max ((\<lambda>u. nullish (priority u) 2) ` set users))"
    using mono_Max_commute [of "of_int :: int \<Rightarrow> rat" "(\<lambda>u. nullish (priority u) 2) ` set users"]
    by (simp add: image_image)
  then show ?thesis
    unfolding highestPriority_def
    using Math_max_Finite [of "\<lambda>u. of_int (nullish (priority u) 2)" users] by simp
qed

lemma getUsersWithHighestPriority_filter:
  "getUsersWithHighestPriority users =
     filter (\<lambda>u. effectivePriority u = Max (effectivePriority ` set users)) users"
proof (cases "users = []")
  case True
  then show ?thesis by (simp add: getUsersWithHighestPriority_def)
next
  case False
  have e: "(\<lambda>u. nullish (priority u) 2) = effectivePriority"
    by (simp add: fun_eq_iff nullish_def effectivePriority_def)
  show ?thesis
    unfolding getUsersWithHighestPriority_def highestPriority_eq e
    using False
    by (auto intro!: filter_cong simp: effectivePriority_def split: option.splits)
qed

lemma getUsersWithHighestPriority_nonempty:
  "(getUsersWithHighestPriority users = []) = (users = [])"
proof (cases "users = []")
  case True
  then show ?thesis by (simp add: getUsersWithHighestPriority_def)
next
  case False
  then have "Max (effectivePriority ` set users) \<in> effectivePriority ` set users"
    by (intro Max_in) simp_all
  then obtain u where "u \<in> set users" "effectivePriority u = Max (effectivePriority ` set users)"
    by auto
  then have "u \<in> set (getUsersWithHighestPriority users)"
    by (simp add: getUsersWithHighestPriority_filter)
  with False show ?thesis by auto
qed

subsection \<open>The sums and counts of the weight filter\<close>







text \<open>A form of the weight filter that the simplifier evaluates on concrete lists.\<close>

lemma getUsersBasedOnWeights_eval:
  "getUsersBasedOnWeights users bookings hosts =
     filter (\<lambda>u. list_ex (\<lambda>v. js_strict_eq (bookingShortfall hosts bookings v)
                                (Math_max (map (bookingShortfall hosts bookings) users))
                            \<and> user_id v = user_id u) users) users"
proof -
  have m: "map snd (map (\<lambda>u. (u, bookingShortfall hosts bookings u)) users)
      = map (bookingShortfall hosts bookings) users"
    by (simp add: comp_def)
  have "(k \<in> set (map (\<lambda>us. user_id (fst us))
            (filter (\<lambda>us. js_strict_eq (snd us) x)
               (map (\<lambda>u. (u, bookingShortfall hosts bookings u)) users))))
      = list_ex (\<lambda>v. js_strict_eq (bookingShortfall hosts bookings v) x \<and> user_id v = k) users"
    for k x
    by (induction users) auto
  then show ?thesis
    unfolding getUsersBasedOnWeights_def Let_def m by simp
qed

subsection \<open>Rounding to a double\<close>

lemma bitLength_pow: "0 < n \<Longrightarrow> 2 ^ (bitLength n - 1) \<le> n"
proof (induction n rule: bitLength.induct)
  case (1 n)
  show ?case
  proof (cases "n div 2 = 0")
    case True
    with "1.prems" show ?thesis
      by (subst bitLength.simps) (simp add: bitLength.simps [of 0])
  next
    case False
    then have "2 ^ (bitLength (n div 2) - 1) \<le> n div 2"
      using "1.IH" "1.prems" by simp
    moreover have "0 < bitLength (n div 2)"
      using False by (subst bitLength.simps) simp
    ultimately have "2 ^ bitLength (n div 2) \<le> 2 * (n div 2)"
      by (cases "bitLength (n div 2)") simp_all
    then have "2 ^ bitLength (n div 2) \<le> n" by linarith
    with "1.prems" show ?thesis
      by (subst bitLength.simps) simp
  qed
qed

lemma pow2_pos: "0 < pow2 k"
  by (simp add: pow2_def)

lemma pow2_le_one: "k \<le> 0 \<Longrightarrow> pow2 k \<le> 1"
  by (auto simp: pow2_def divide_le_eq_1)

lemma roundHalfEven_le: "of_int (roundHalfEven x) \<le> x + 1"
proof -
  have "rat_of_int \<lfloor>x\<rfloor> \<le> x + 1" "rat_of_int (\<lfloor>x\<rfloor> + 1) \<le> x + 1"
    using of_int_floor_le [of x] by linarith+
  then show ?thesis
    unfolding roundHalfEven_def Let_def by presburger
qed

lemma ulp_le:
  assumes "0 < a"
  shows "pow2 (max (binaryExponent a) (- 1022) - 52) \<le> max a 1"
proof (cases "1 \<le> a")
  case True
  define n where "n = nat \<lfloor>a\<rfloor>"
  have n: "0 < n" "rat_of_nat n \<le> a"
    using True by (simp_all add: n_def)
  have b: "0 < bitLength n"
    using n(1) by (subst bitLength.simps) simp
  have e: "binaryExponent a = int (bitLength n) - 1"
    using True by (simp add: binaryExponent_def n_def)
  show ?thesis
  proof (cases "52 \<le> int (bitLength n) - 1")
    case True
    then have "pow2 (max (binaryExponent a) (- 1022) - 52) = 2 ^ nat (int (bitLength n) - 1 - 52)"
      by (simp add: e pow2_def)
    also have "\<dots> \<le> 2 ^ (bitLength n - 1)"
      by (rule power_increasing) (use b in auto)
    also have "\<dots> \<le> rat_of_nat n"
      using bitLength_pow [OF n(1)] by (metis of_nat_le_iff of_nat_numeral of_nat_power)
    finally show ?thesis using n(2) by simp
  next
    case False
    then have "pow2 (max (binaryExponent a) (- 1022) - 52) \<le> 1"
      using b by (intro pow2_le_one) (simp add: e)
    then show ?thesis by simp
  qed
next
  case False
  then have "binaryExponent a \<le> 0" by (simp add: binaryExponent_def)
  then have "pow2 (max (binaryExponent a) (- 1022) - 52) \<le> 1"
    by (intro pow2_le_one) simp
  then show ?thesis by simp
qed

lemma toDouble_not_NaN: "toDouble q \<noteq> NaN"
  by (simp add: toDouble_def Let_def)

lemma toDouble_Finite:
  assumes "\<bar>q\<bar> < 2 ^ 1023"
  shows "\<exists>r. toDouble q = Finite r"
proof (cases "q = 0")
  case True
  then show ?thesis by (simp add: toDouble_def)
next
  case False
  define a where "a = \<bar>q\<bar>"
  define ulp where "ulp = pow2 (max (binaryExponent a) (- 1022) - 52)"
  have a: "0 < a" using False by (simp add: a_def)
  have u: "0 < ulp" by (simp add: ulp_def pow2_pos)
  have "of_int (roundHalfEven (a / ulp)) * ulp \<le> (a / ulp + 1) * ulp"
    using roundHalfEven_le [of "a / ulp"] u by (simp add: mult_right_mono)
  also have "\<dots> = a + ulp" using u by (simp add: field_simps)
  also have "\<dots> \<le> a + max a 1" using ulp_le [OF a] by (simp add: ulp_def)
  also have "\<dots> < 2 ^ 1023 + 2 ^ 1023"
    using assms by (auto simp: a_def max_def intro: add_strict_mono less_le_trans [OF _ one_le_power])
  finally have "of_int (roundHalfEven (a / ulp)) * ulp < 2 ^ 1024" by simp
  moreover have "pow2 1024 = 2 ^ 1024" by (simp add: pow2_def)
  ultimately have "\<not> pow2 1024 \<le> of_int (roundHalfEven (a / ulp)) * ulp" by simp
  then show ?thesis
    using False by (simp add: toDouble_def Let_def a_def ulp_def)
qed






subsection \<open>\<open>Math.max\<close> and \<open><=\<close> without \<open>NaN\<close>\<close>

lemma js_le_refl: "x \<noteq> NaN \<Longrightarrow> js_le x x"
  by (cases x) simp_all

lemma js_le_trans: "js_le x y \<Longrightarrow> js_le y z \<Longrightarrow> js_le x z"
  by (cases x; cases y; cases z) simp_all

lemma js_le_antisym: "js_le x y \<Longrightarrow> js_le y x \<Longrightarrow> x = y"
  by (cases x; cases y) simp_all

lemma js_strict_eq_iff: "js_strict_eq x y \<longleftrightarrow> x \<noteq> NaN \<and> x = y"
  by (cases x; cases y) simp_all

lemma js_max2_greatest:
  assumes "a \<noteq> NaN" and "b \<noteq> NaN"
  shows "js_max2 a b \<noteq> NaN" and "js_max2 a b = a \<or> js_max2 a b = b"
    and "js_le a (js_max2 a b)" and "js_le b (js_max2 a b)"
  using assms by (cases a; cases b; simp add: max_def)+

lemma foldl_js_max2_greatest:
  assumes "a \<noteq> NaN" and "NaN \<notin> set xs"
  shows "foldl js_max2 a xs \<noteq> NaN \<and> foldl js_max2 a xs \<in> insert a (set xs)
       \<and> js_le a (foldl js_max2 a xs) \<and> (\<forall>x\<in>set xs. js_le x (foldl js_max2 a xs))"
  using assms
proof (induction xs arbitrary: a)
  case Nil
  then show ?case by (simp add: js_le_refl)
next
  case (Cons b xs)
  have b: "b \<noteq> NaN" and xs: "NaN \<notin> set xs" using Cons.prems(2) by auto
  note m = js_max2_greatest [OF Cons.prems(1) b]
  note IH = Cons.IH [OF m(1) xs]
  have "js_le a (foldl js_max2 (js_max2 a b) xs)" "js_le b (foldl js_max2 (js_max2 a b) xs)"
    using IH m(3,4) js_le_trans by blast+
  moreover have "foldl js_max2 (js_max2 a b) xs \<in> insert a (set (b # xs))"
    using IH m(2) by auto
  ultimately show ?case using IH by simp
qed

lemma Math_max_greatest:
  assumes "NaN \<notin> set xs" and "xs \<noteq> []"
  shows "Math_max xs \<in> set xs" and "\<forall>x\<in>set xs. js_le x (Math_max xs)"
proof -
  have f: "Math_max xs \<in> insert NegInfinity (set xs)" "\<forall>x\<in>set xs. js_le x (Math_max xs)"
    using foldl_js_max2_greatest [of NegInfinity xs] assms(1) by (simp_all add: Math_max_def)
  show "\<forall>x\<in>set xs. js_le x (Math_max xs)" by (rule f(2))
  show "Math_max xs \<in> set xs"
  proof (cases "Math_max xs = NegInfinity")
    case True
    obtain x where x: "x \<in> set xs" using assms(2) by (cases xs) auto
    then have "js_le x NegInfinity" using f(2) True by auto
    then have "x = NegInfinity" by (cases x) simp_all
    with x True show ?thesis by simp
  next
    case False
    with f(1) show ?thesis by simp
  qed
qed

lemma js_strict_eq_Math_max:
  assumes "NaN \<notin> set xs" and "x \<in> set xs"
  shows "js_strict_eq x (Math_max xs) \<longleftrightarrow> (\<forall>y\<in>set xs. js_le y x)"
proof -
  have ne: "xs \<noteq> []" using assms(2) by auto
  note g = Math_max_greatest [OF assms(1) ne]
  have x: "x \<noteq> NaN" using assms by auto
  show ?thesis
  proof
    assume "js_strict_eq x (Math_max xs)"
    then have "x = Math_max xs" by (simp add: js_strict_eq_iff)
    with g(2) show "\<forall>y\<in>set xs. js_le y x" by simp
  next
    assume "\<forall>y\<in>set xs. js_le y x"
    then have "js_le (Math_max xs) x" using g(1) by blast
    moreover have "js_le x (Math_max xs)" using g(2) assms(2) by blast
    ultimately have "x = Math_max xs" by (rule js_le_antisym [rotated])
    with x show "js_strict_eq x (Math_max xs)" by (simp add: js_strict_eq_iff)
  qed
qed

subsection \<open>The weight filter when no shortfall is \<open>NaN\<close>\<close>

lemma safeInteger_quotient:
  assumes "t \<noteq> 0" and "safeInteger w"
  shows "\<bar>rat_of_int w / rat_of_int t\<bar> < 2 ^ 1023"
proof -
  have "\<bar>w\<bar> < 2 ^ 53" using assms(2) by (simp add: safeInteger_def)
  then have "rat_of_int \<bar>w\<bar> < rat_of_int (2 ^ 53)" by (simp only: of_int_less_iff)
  then have w: "\<bar>rat_of_int w\<bar> < 2 ^ 53" by simp
  have "1 \<le> \<bar>t\<bar>" using assms(1) by linarith
  then have "rat_of_int 1 \<le> rat_of_int \<bar>t\<bar>" by (simp only: of_int_le_iff)
  then have t: "1 \<le> \<bar>rat_of_int t\<bar>" by simp
  have "\<bar>rat_of_int w / rat_of_int t\<bar> = \<bar>rat_of_int w\<bar> / \<bar>rat_of_int t\<bar>"
    by (rule abs_divide)
  also have "\<dots> \<le> \<bar>rat_of_int w\<bar> / 1"
    by (rule divide_left_mono) (use t in auto)
  finally have "\<bar>rat_of_int w / rat_of_int t\<bar> < 2 ^ 53" using w by simp
  moreover have "(2::rat) ^ 53 \<le> 2 ^ 1023" by (rule power_increasing) simp_all
  ultimately show ?thesis by (rule less_le_trans)
qed

lemma js_sub_toDouble_not_NaN: "js_sub (toDouble q) k \<noteq> NaN"
  by (cases "toDouble q") (simp_all add: toDouble_not_NaN)

lemma bookingShortfall_not_NaN:
  assumes "totalWeight hosts \<noteq> 0" and "safeInteger (nullish (weight u) 100)"
  shows "bookingShortfall hosts bookings u \<noteq> NaN"
proof -
  obtain r where r: "toDouble (rat_of_int (nullish (weight u) 100) / rat_of_int (totalWeight hosts)) = Finite r"
    using toDouble_Finite [OF safeInteger_quotient [OF assms]] by blast
  have "js_div (nullish (weight u) 100) (totalWeight hosts) = Finite r"
    using assms(1) r by (simp add: js_div_def)
  then show ?thesis
    unfolding bookingShortfall_def Let_def
    by (simp only: js_mul.simps js_sub_toDouble_not_NaN not_False_eq_True)
qed

lemma getUsersBasedOnWeights_ids:
  assumes "\<forall>u\<in>set users. bookingShortfall hosts bookings u \<noteq> NaN"
  shows "getUsersBasedOnWeights users bookings hosts =
     filter (\<lambda>u. \<exists>v\<in>set users. user_id v = user_id u
                 \<and> (\<forall>d\<in>set users. js_le (bookingShortfall hosts bookings d)
                                         (bookingShortfall hosts bookings v))) users"
proof -
  have n: "NaN \<notin> set (map (bookingShortfall hosts bookings) users)"
    using assms by auto
  have "js_strict_eq (bookingShortfall hosts bookings v)
            (Math_max (map (bookingShortfall hosts bookings) users))
      \<longleftrightarrow> (\<forall>d\<in>set users. js_le (bookingShortfall hosts bookings d) (bookingShortfall hosts bookings v))"
    if "v \<in> set users" for v
    using js_strict_eq_Math_max [OF n, of "bookingShortfall hosts bookings v"] that by simp
  then show ?thesis
    unfolding getUsersBasedOnWeights_eval
    by (intro filter_cong refl) (auto simp: list_ex_iff)
qed


lemma getUsersBasedOnWeights_nonempty:
  assumes "\<forall>u\<in>set users. bookingShortfall hosts bookings u \<noteq> NaN" and "users \<noteq> []"
  shows "getUsersBasedOnWeights users bookings hosts \<noteq> []"
proof -
  have n: "NaN \<notin> set (map (bookingShortfall hosts bookings) users)"
    using assms(1) by auto
  have "Math_max (map (bookingShortfall hosts bookings) users) \<in> set (map (bookingShortfall hosts bookings) users)"
    using Math_max_greatest(1) [OF n] assms(2) by simp
  then obtain u where u: "u \<in> set users"
      "bookingShortfall hosts bookings u = Math_max (map (bookingShortfall hosts bookings) users)"
    by auto
  then have "\<forall>d\<in>set users. js_le (bookingShortfall hosts bookings d) (bookingShortfall hosts bookings u)"
    using Math_max_greatest(2) [OF n] assms(2) by simp
  then have "u \<in> set (getUsersBasedOnWeights users bookings hosts)"
    unfolding getUsersBasedOnWeights_ids [OF assms(1)] using u(1) by auto
  then show ?thesis by auto
qed








subsection \<open>The attendee scan\<close>

text \<open>For candidates with distinct ids the scan records, for each candidate, the first
  booking of the array that passes the test for that candidate.\<close>

lemma attendeeVisit_other:
  "user_id v \<noteq> k \<Longrightarrow> attendeeVisit org b agg v k = agg k"
  by (simp add: attendeeVisit_def)

lemma attendeeVisit_same:
  "user_id v = k \<Longrightarrow> email v = e \<Longrightarrow>
     attendeeVisit org b agg v k = (if agg k = None \<and> considered org k e b then Some (createdAt b) else agg k)"
  by (auto simp: attendeeVisit_def considered_def)

lemma attendeeVisit_fold:
  assumes "\<forall>v\<in>set users. user_id v = k \<longrightarrow> email v = e"
  shows "foldl (attendeeVisit org b) agg users k =
     (if agg k = None \<and> k \<in> user_id ` set users \<and> considered org k e b
      then Some (createdAt b) else agg k)"
  using assms
proof (induction users arbitrary: agg)
  case Nil
  then show ?case by simp
next
  case (Cons v vs)
  show ?case
  proof (cases "user_id v = k")
    case True
    with Cons.prems have "email v = e" by simp
    with True Cons show ?thesis
      by (simp add: attendeeVisit_same)
  next
    case False
    with Cons show ?thesis
      by (simp add: attendeeVisit_other)
  qed
qed

lemma attendee_scan:
  assumes "\<forall>v\<in>set users. user_id v = k \<longrightarrow> email v = e" and "k \<in> user_id ` set users"
  shows "foldl (\<lambda>aggregate b. foldl (attendeeVisit org b) aggregate users) agg bookings k =
     (case agg k of Some t \<Rightarrow> Some t
      | None \<Rightarrow> map_option createdAt (find (considered org k e) bookings))"
proof (induction bookings arbitrary: agg)
  case Nil
  then show ?case by (simp split: option.splits)
next
  case (Cons b bs)
  show ?case
    by (simp add: Cons attendeeVisit_fold [OF assms(1)] assms(2) split: option.splits)
qed

lemma attendeeUserIdAndAtCreatedPair_find:
  assumes "inj_on user_id (set users)" and "u \<in> set users"
  shows "attendeeUserIdAndAtCreatedPair org users bookings (user_id u) =
     map_option createdAt (find (considered org (user_id u) (email u)) bookings)"
proof -
  have "\<forall>v\<in>set users. user_id v = user_id u \<longrightarrow> email v = email u"
    using assms by (auto dest: inj_onD)
  moreover have "user_id u \<in> user_id ` set users"
    using assms(2) by simp
  ultimately show ?thesis
    unfolding attendeeUserIdAndAtCreatedPair_def
    using attendee_scan [of users "user_id u" "email u" org Map.empty bookings] by simp
qed

lemma find_strict_after:
  assumes "sorted_wrt (\<lambda>a b. createdAt b \<le> createdAt a) bookings"
  shows "(case find (\<lambda>b. Some e \<in> attendee_email ` set (attendees b) \<and> \<not> createdAt b < t0) bookings of
            None \<Rightarrow> Some t0 | Some b \<Rightarrow> Some (createdAt b))
       = (case find (\<lambda>b. Some e \<in> attendee_email ` set (attendees b) \<and> t0 < createdAt b) bookings of
            None \<Rightarrow> Some t0 | Some b \<Rightarrow> Some (createdAt b))"
  using assms
proof (induction bookings)
  case Nil
  then show ?case by simp
next
  case (Cons b bs)
  have later: "createdAt b = t0 \<Longrightarrow>
      find (\<lambda>b. Some e \<in> attendee_email ` set (attendees b) \<and> t0 < createdAt b) bs = None"
    using Cons.prems by (auto simp: find_None_iff)
  from Cons have IH: "(case find (\<lambda>b. Some e \<in> attendee_email ` set (attendees b) \<and> \<not> createdAt b < t0) bs of
            None \<Rightarrow> Some t0 | Some b \<Rightarrow> Some (createdAt b))
       = (case find (\<lambda>b. Some e \<in> attendee_email ` set (attendees b) \<and> t0 < createdAt b) bs of
            None \<Rightarrow> Some t0 | Some b \<Rightarrow> Some (createdAt b))"
    by simp
  consider "createdAt b < t0" | "createdAt b = t0" | "t0 < createdAt b" by linarith
  then show ?case
  proof cases
    case 1
    then show ?thesis using IH by simp
  next
    case 2
    then show ?thesis using IH later by simp
  next
    case 3
    then show ?thesis using IH by simp
  qed
qed

lemma find_sorted_most_recent:
  assumes "sorted_wrt (\<lambda>a b. createdAt b \<le> createdAt a) bookings"
    and "find P bookings = Some b" and "b' \<in> set bookings" and "P b'"
  shows "createdAt b' \<le> createdAt b"
  using assms
proof (induction bookings)
  case Nil
  then show ?case by simp
next
  case (Cons x xs)
  then show ?case by (auto split: if_splits)
qed

lemma merged_lookup:
  "userIdAndAtCreatedPair db users etId bookings k =
     (case attendeeUserIdAndAtCreatedPair (organizerIdAndAtCreatedPair (organizersWithLastCreated db users etId)) users bookings k of
        Some t \<Rightarrow> Some t
      | None \<Rightarrow> organizerIdAndAtCreatedPair (organizersWithLastCreated db users etId) k)"
  by (simp add: userIdAndAtCreatedPair_def Let_def map_add_def split: option.splits)


subsection \<open>The organizer query\<close>

lemma find_map_option: "find P (map f xs) = map_option f (find (\<lambda>x. P (f x)) xs)"
  by (induction xs) simp_all

lemma find_SomeD: "find P xs = Some x \<Longrightarrow> x \<in> set xs \<and> P x"
  by (induction xs) (auto split: if_splits)

lemma organizer_fold:
  "foldl (\<lambda>keyValuePair r. keyValuePair(fst r \<mapsto> g (snd r))) m0 rows k =
     (case find (\<lambda>r. fst r = k) (rev rows) of None \<Rightarrow> m0 k | Some r \<Rightarrow> Some (g (snd r)))"
  by (induction rows rule: rev_induct) simp_all

lemma organizer_lookup:
  "organizerIdAndAtCreatedPair (organizersWithLastCreated db users etId) k =
     (case find (\<lambda>r. db_id r = k) (rev (filter (\<lambda>r. db_id r \<in> user_id ` set users) db)) of
        None \<Rightarrow> None
      | Some r \<Rightarrow> Some (case lastCreated etId (db_bookings r) of [] \<Rightarrow> 0 | c # _ \<Rightarrow> c))"
proof -
  have "find (\<lambda>r. fst r = k) (rev (organizersWithLastCreated db users etId))
      = map_option (\<lambda>r. (db_id r, lastCreated etId (db_bookings r)))
          (find (\<lambda>r. db_id r = k) (rev (filter (\<lambda>r. db_id r \<in> user_id ` set users) db)))"
    by (simp add: organizersWithLastCreated_def rev_map find_map_option)
  then show ?thesis
    unfolding organizerIdAndAtCreatedPair_def organizer_fold
    by (simp split: option.splits)
qed

lemma organizer_defined:
  assumes "k \<in> db_id ` set db" and "k \<in> user_id ` set users"
  shows "organizerIdAndAtCreatedPair (organizersWithLastCreated db users etId) k \<noteq> None"
proof -
  have "find (\<lambda>r. db_id r = k) (rev (filter (\<lambda>r. db_id r \<in> user_id ` set users) db)) \<noteq> None"
    using assms by (auto simp: find_None_iff)
  then show ?thesis
    unfolding organizer_lookup by (auto split: option.splits)
qed

lemma organizer_value:
  assumes "organizerIdAndAtCreatedPair (organizersWithLastCreated db users etId) k = Some t"
  shows "\<exists>r\<in>set db. db_id r = k \<and> t = (case lastCreated etId (db_bookings r) of [] \<Rightarrow> 0 | c # _ \<Rightarrow> c)"
proof -
  from assms obtain r where
    "find (\<lambda>r. db_id r = k) (rev (filter (\<lambda>r. db_id r \<in> user_id ` set users) db)) = Some r"
    and t: "t = (case lastCreated etId (db_bookings r) of [] \<Rightarrow> 0 | c # _ \<Rightarrow> c)"
    unfolding organizer_lookup by (auto split: option.splits)
  then have "r \<in> set db \<and> db_id r = k"
    by (auto dest: find_SomeD)
  with t show ?thesis by blast
qed

lemma lastCreated_Nil:
  "\<not> list_ex (organizerBookingMatches etId) bs \<Longrightarrow> lastCreated etId bs = []"
  by (simp add: lastCreated_def list_ex_iff filter_empty_conv)

lemma lastCreated_mem:
  assumes "lastCreated etId bs = c # cs"
  shows "c \<in> db_createdAt ` set bs"
proof -
  have "c \<in> set (lastCreated etId bs)" using assms by simp
  then have "c \<in> set (rev (sort (map db_createdAt (filter (organizerBookingMatches etId) bs))))"
    unfolding lastCreated_def by (rule in_set_takeD)
  then show ?thesis by auto
qed

subsection \<open>Where the merged timestamps come from\<close>

lemma attendeeVisit_ran:
  "ran agg \<subseteq> S \<Longrightarrow> createdAt b \<in> S \<Longrightarrow> ran (attendeeVisit org b agg u) \<subseteq> S"
  by (auto simp: attendeeVisit_def ran_def)

lemma attendeeVisit_fold_ran:
  "ran agg \<subseteq> S \<Longrightarrow> createdAt b \<in> S \<Longrightarrow> ran (foldl (attendeeVisit org b) agg users) \<subseteq> S"
  by (induction users arbitrary: agg) (simp_all add: attendeeVisit_ran)

lemma attendee_scan_ran:
  "ran agg \<subseteq> S \<Longrightarrow> createdAt ` set bookings \<subseteq> S \<Longrightarrow>
     ran (foldl (\<lambda>aggregate b. foldl (attendeeVisit org b) aggregate users) agg bookings) \<subseteq> S"
  by (induction bookings arbitrary: agg) (simp_all add: attendeeVisit_fold_ran)

lemma attendee_value:
  assumes "attendeeUserIdAndAtCreatedPair org users bookings k = Some t"
  shows "t \<in> createdAt ` set bookings"
proof -
  have "ran (attendeeUserIdAndAtCreatedPair org users bookings) \<subseteq> createdAt ` set bookings"
    unfolding attendeeUserIdAndAtCreatedPair_def by (rule attendee_scan_ran) simp_all
  with assms show ?thesis by (auto simp: ran_def)
qed

lemma merged_value:
  assumes "userIdAndAtCreatedPair db users etId bookings k = Some t"
  shows "t = 0 \<or> t \<in> createdAt ` set bookings
       \<or> (\<exists>r\<in>set db. t \<in> db_createdAt ` set (db_bookings r))"
proof (cases "attendeeUserIdAndAtCreatedPair (organizerIdAndAtCreatedPair (organizersWithLastCreated db users etId)) users bookings k")
  case None
  with assms have "organizerIdAndAtCreatedPair (organizersWithLastCreated db users etId) k = Some t"
    by (simp add: merged_lookup)
  then obtain r where r: "r \<in> set db"
      "t = (case lastCreated etId (db_bookings r) of [] \<Rightarrow> 0 | c # _ \<Rightarrow> c)"
    using organizer_value by blast
  then show ?thesis
    by (cases "lastCreated etId (db_bookings r)") (auto dest: lastCreated_mem)
next
  case (Some s)
  with assms have "s = t" by (simp add: merged_lookup)
  with Some show ?thesis using attendee_value by blast
qed

lemma merged_defined:
  assumes "k \<in> db_id ` set db" and "k \<in> user_id ` set users"
  shows "userIdAndAtCreatedPair db users etId bookings k \<noteq> None"
  using organizer_defined [OF assms, of etId]
  by (auto simp: merged_lookup split: option.splits)

lemma never_booked_epoch:
  assumes "u \<in> set users" and "inj_on user_id (set users)"
    and "user_id u \<in> db_id ` set db"
    and "\<forall>r\<in>set db. db_id r = user_id u \<longrightarrow> \<not> list_ex (organizerBookingMatches etId) (db_bookings r)"
    and "\<forall>b\<in>set bookings. Some (email u) \<notin> attendee_email ` set (attendees b)"
  shows "userIdAndAtCreatedPair db users etId bookings (user_id u) = Some 0"
proof -
  let ?org = "organizerIdAndAtCreatedPair (organizersWithLastCreated db users etId)"
  have "find (considered ?org (user_id u) (email u)) bookings = None"
    using assms(5) by (auto simp: find_None_iff considered_def)
  then have att: "attendeeUserIdAndAtCreatedPair ?org users bookings (user_id u) = None"
    by (simp add: attendeeUserIdAndAtCreatedPair_find [OF assms(2,1)])
  obtain t where t: "?org (user_id u) = Some t"
    using organizer_defined [OF assms(3), of users etId] assms(1) by auto
  then obtain r where "r \<in> set db" "db_id r = user_id u"
      "t = (case lastCreated etId (db_bookings r) of [] \<Rightarrow> 0 | c # _ \<Rightarrow> c)"
    using organizer_value by blast
  with assms(4) have "t = 0" by (simp add: lastCreated_Nil)
  with t att show ?thesis by (simp add: merged_lookup)
qed

subsection \<open>The comparison function and the sort\<close>

lemma compareFn_cases:
  "compareFn m coin a b =
     (if date_gt (m (user_id a)) (m (user_id b)) then 1
      else if date_lt (m (user_id a)) (m (user_id b)) then - 1
      else if coin then 1 else - 1)"
  by (simp add: compareFn_def)

lemma date_lt_gt: "date_lt x y = date_gt y x"
  by (cases x; cases y) auto

lemma compareFn_False_neg: "compareFn m False a b < 0 \<longleftrightarrow> \<not> date_gt (m (user_id a)) (m (user_id b))"
  by (simp add: compareFn_def)

lemma compareFn_coin:
  "compareFn m True a b = compareFn m False a b \<longleftrightarrow>
     date_gt (m (user_id a)) (m (user_id b)) \<or> date_gt (m (user_id b)) (m (user_id a))"
  by (simp add: compareFn_def date_lt_gt)

lemma coinFree_iff:
  "coinFree m xs =
     sorted_wrt (\<lambda>a b. date_gt (m (user_id a)) (m (user_id b)) \<or> date_gt (m (user_id b)) (m (user_id a))) xs"
  unfolding coinFree_def compareFn_coin by (rule arg_cong2 [where f = sorted_wrt]) auto

lemma sorted_wrt_sym_pair:
  assumes "sorted_wrt P xs" and "\<And>a b. P a b \<Longrightarrow> P b a"
    and "a \<in> set xs" and "b \<in> set xs" and "a \<noteq> b"
  shows "P a b"
  using assms(1,3,4,5)
proof (induction xs)
  case Nil
  then show ?case by simp
next
  case (Cons x xs)
  then show ?case using assms(2) by auto
qed

lemma coinFree_comparable:
  assumes "coinFree m xs" and "a \<in> set xs" and "b \<in> set xs" and "a \<noteq> b"
  shows "date_gt (m (user_id a)) (m (user_id b)) \<or> date_gt (m (user_id b)) (m (user_id a))"
  using sorted_wrt_sym_pair [OF assms(1) [unfolded coinFree_iff], of a b] assms(2-4) by blast

lemma date_gt_total:
  "x \<noteq> None \<Longrightarrow> y \<noteq> None \<Longrightarrow> x \<noteq> y \<Longrightarrow> date_gt x y \<or> date_gt y x"
  by (cases x; cases y) auto

lemma noTies_coinFree:
  assumes "\<forall>u\<in>set xs. m (user_id u) \<noteq> None" and "distinct (map (\<lambda>u. m (user_id u)) xs)"
  shows "coinFree m xs"
  unfolding coinFree_iff using assms
proof (induction xs)
  case Nil
  then show ?case by simp
next
  case (Cons a xs)
  have "date_gt (m (user_id a)) (m (user_id x)) \<or> date_gt (m (user_id x)) (m (user_id a))"
    if "x \<in> set xs" for x
  proof (rule date_gt_total)
    show "m (user_id a) \<noteq> None" using Cons.prems(1) by simp
    show "m (user_id x) \<noteq> None" using Cons.prems(1) that by simp
    show "m (user_id a) \<noteq> m (user_id x)" using Cons.prems(2) that by auto
  qed
  with Cons show ?case by simp
qed

lemma sorted_by_key:
  assumes "\<forall>u\<in>set xs. m (user_id u) \<noteq> None"
  shows "sorted_wrt (\<lambda>a b. compareFn m False a b < 0) (sort_key (\<lambda>u. the (m (user_id u))) xs)"
proof -
  let ?ys = "sort_key (\<lambda>u. the (m (user_id u))) xs"
  have "sorted (map (\<lambda>u. the (m (user_id u))) ?ys)" by simp
  then have "sorted_wrt (\<lambda>a b. the (m (user_id a)) \<le> the (m (user_id b))) ?ys"
    by (simp add: sorted_wrt_map)
  moreover have "\<And>a b. a \<in> set ?ys \<Longrightarrow> b \<in> set ?ys \<Longrightarrow> the (m (user_id a)) \<le> the (m (user_id b))
      \<Longrightarrow> compareFn m False a b < 0"
  proof -
    fix a b
    assume "a \<in> set ?ys" "b \<in> set ?ys" and le: "the (m (user_id a)) \<le> the (m (user_id b))"
    then obtain s t where "m (user_id a) = Some s" "m (user_id b) = Some t"
      using assms by (metis not_Some_eq set_sort)
    with le show "compareFn m False a b < 0"
      by (simp add: compareFn_False_neg)
  qed
  ultimately show ?thesis
    by (rule sorted_wrt_mono_rel [rotated]) blast
qed

lemma first_Nil [simp]: "first [] = None"
  by (simp add: first_def)

lemma first_Cons [simp]: "first (x # xs) = Some x"
  by (simp add: first_def)

lemma sortOutcome_Nil: "sortOutcome m [] ys \<longleftrightarrow> ys = []"
  by (auto simp: sortOutcome_def)

lemma sortOutcome_single: "sortOutcome m [x] ys \<longleftrightarrow> ys = [x]"
  by (auto simp: sortOutcome_def mset_single_iff_right)

lemma sortOutcome_first_mem:
  assumes "sortOutcome m xs ys" and "xs \<noteq> []"
  shows "\<exists>u\<in>set xs. first ys = Some u"
proof -
  from assms have s: "set ys = set xs" and "ys \<noteq> []"
    by (auto simp: sortOutcome_def dest: mset_eq_setD)
  then obtain y zs where "ys = y # zs" by (cases ys) auto
  with s show ?thesis by auto
qed

lemma coinFree_short: "length xs \<le> 1 \<Longrightarrow> sorted_wrt P xs"
  by (cases xs) auto

lemma coinFree_all_defined:
  assumes "coinFree m xs" and "\<not> length xs \<le> 1"
  shows "\<forall>u\<in>set xs. m (user_id u) \<noteq> None"
proof -
  from assms(2) obtain x y zs where xs: "xs = x # y # zs"
    by (cases xs; cases "tl xs") auto
  have c: "\<forall>z\<in>set (y # zs). date_gt (m (user_id x)) (m (user_id z)) \<or> date_gt (m (user_id z)) (m (user_id x))"
    using assms(1) unfolding coinFree_iff xs by simp
  have d: "date_gt a b \<Longrightarrow> a \<noteq> None \<and> b \<noteq> None" for a b
    by (cases a; cases b) auto
  from c have "\<forall>z\<in>set (y # zs). m (user_id z) \<noteq> None" using d by blast
  moreover from c have "m (user_id x) \<noteq> None" using d by (metis list.set_intros(1))
  ultimately show ?thesis unfolding xs by simp
qed

lemma sortOutcome_exists: "\<exists>ys. sortOutcome m xs ys"
proof (cases "coinFree m xs \<and> \<not> length xs \<le> 1")
  case True
  then have "\<forall>u\<in>set xs. m (user_id u) \<noteq> None"
    using coinFree_all_defined by blast
  then have "sorted_wrt (\<lambda>a b. compareFn m False a b < 0) (sort_key (\<lambda>u. the (m (user_id u))) xs)"
    by (rule sorted_by_key)
  then have "sortOutcome m xs (sort_key (\<lambda>u. the (m (user_id u))) xs)"
    unfolding sortOutcome_def by simp
  then show ?thesis ..
next
  case False
  then have "sortOutcome m xs xs"
    unfolding sortOutcome_def using coinFree_short by auto
  then show ?thesis ..
qed

lemma sortOutcome_first_unique:
  assumes "coinFree m xs" and "sortOutcome m xs ys" and "sortOutcome m xs zs"
  shows "first ys = first zs"
proof (cases ys)
  case Nil
  with assms(2,3) show ?thesis by (auto simp: sortOutcome_def)
next
  case ys: (Cons y ys')
  with assms(2,3) obtain z zs' where zs: "zs = z # zs'"
    by (cases zs) (auto simp: sortOutcome_def)
  have sy: "set ys = set xs" and sz: "set zs = set xs"
    using assms(2,3) by (auto simp: sortOutcome_def dest: mset_eq_setD)
  have oy: "\<forall>b\<in>set ys'. \<not> date_gt (m (user_id y)) (m (user_id b))"
    using assms(1,2) unfolding sortOutcome_def ys by (simp add: compareFn_False_neg)
  have oz: "\<forall>b\<in>set zs'. \<not> date_gt (m (user_id z)) (m (user_id b))"
    using assms(1,3) unfolding sortOutcome_def zs by (simp add: compareFn_False_neg)
  have "y = z"
  proof (rule ccontr)
    assume ne: "y \<noteq> z"
    have "y \<in> set xs" "z \<in> set xs" using sy sz ys zs by auto
    then have "date_gt (m (user_id y)) (m (user_id z)) \<or> date_gt (m (user_id z)) (m (user_id y))"
      using coinFree_comparable [OF assms(1)] ne by blast
    moreover have "z \<in> set ys'" using sy sz ys zs ne by auto
    moreover have "y \<in> set zs'" using sy sz ys zs ne by auto
    ultimately show False using oy oz by blast
  qed
  then show ?thesis by (simp add: ys zs)
qed

subsection \<open>The recency stage and the entry point\<close>

lemma leastRecentlyBookedUser_iff:
  "leastRecentlyBookedUser db users et bookings r \<longleftrightarrow>
     (\<exists>ys. sortOutcome (userIdAndAtCreatedPair db users (eventType_id et) bookings) users ys
           \<and> r = Inr (first ys))"
  by (auto simp: leastRecentlyBookedUser.simps objectIsTruthy_def)

lemma leastRecentlyBookedUser_Nil:
  "leastRecentlyBookedUser db [] et bookings r \<longleftrightarrow> r = Inr None"
  by (auto simp: leastRecentlyBookedUser_iff sortOutcome_Nil)

lemma leastRecentlyBookedUser_single:
  "leastRecentlyBookedUser db [u] et bookings r \<longleftrightarrow> r = Inr (Some u)"
  by (auto simp: leastRecentlyBookedUser_iff sortOutcome_single)

text \<open>Every call has a result: the relations are never empty.\<close>

lemma leastRecentlyBookedUser_total: "\<exists>r. leastRecentlyBookedUser db users et bookings r"
  using sortOutcome_exists by (auto simp: leastRecentlyBookedUser_iff)

lemma getLuckyUser_total: "\<exists>r. getLuckyUser alg p db bookings r"
proof -
  obtain r where "leastRecentlyBookedUser db (highestPriorityUsers p bookings) (eventType p) bookings r"
    using leastRecentlyBookedUser_total by blast
  then show ?thesis
    unfolding getLuckyUser_def by (cases "length (availableUsers p) = 1") auto
qed

lemma getUsersBasedOnWeights_Nil [simp]: "getUsersBasedOnWeights [] bookings hosts = []"
  by (simp add: getUsersBasedOnWeights_def)

lemma getUsersBasedOnWeights_subset:
  "set (getUsersBasedOnWeights users bookings hosts) \<subseteq> set users"
  by (auto simp: getUsersBasedOnWeights_def Let_def)

lemma getUsersWithHighestPriority_subset:
  "set (getUsersWithHighestPriority users) \<subseteq> set users"
  by (auto simp: getUsersWithHighestPriority_def)


text \<open>Without a coin flip the recency stage has one result; for two candidates with
  different timestamps it is the one with the earlier timestamp.\<close>

lemma leastRecentlyBookedUser_unique:
  assumes "coinFree (userIdAndAtCreatedPair db users (eventType_id et) bookings) users"
    and "leastRecentlyBookedUser db users et bookings r1"
    and "leastRecentlyBookedUser db users et bookings r2"
  shows "r1 = r2"
  using assms(2,3) sortOutcome_first_unique [OF assms(1)]
  by (auto simp: leastRecentlyBookedUser_iff)

lemma leastRecentlyBookedUser_pair:
  assumes "date_gt (userIdAndAtCreatedPair db [a, b] (eventType_id et) bookings (user_id b))
                   (userIdAndAtCreatedPair db [a, b] (eventType_id et) bookings (user_id a))"
  shows "leastRecentlyBookedUser db [a, b] et bookings r \<longleftrightarrow> r = Inr (Some a)"
proof -
  let ?m = "userIdAndAtCreatedPair db [a, b] (eventType_id et) bookings"
  have ng: "\<not> date_gt (?m (user_id a)) (?m (user_id b))"
    using assms by (cases "?m (user_id a)"; cases "?m (user_id b)") auto
  have cf: "coinFree ?m [a, b]"
    using assms by (simp add: coinFree_iff)
  have "sortOutcome ?m [a, b] [a, b]"
    using ng by (simp add: sortOutcome_def compareFn_False_neg)
  then have "leastRecentlyBookedUser db [a, b] et bookings (Inr (first [a, b]))"
    unfolding leastRecentlyBookedUser_iff by blast
  then have here: "leastRecentlyBookedUser db [a, b] et bookings (Inr (Some a))" by simp
  show ?thesis
    using here leastRecentlyBookedUser_unique [OF cf] by blast
qed

lemma leastRecentlyBookedUser_pair_swapped:
  assumes "date_gt (userIdAndAtCreatedPair db [a, b] (eventType_id et) bookings (user_id a))
                   (userIdAndAtCreatedPair db [a, b] (eventType_id et) bookings (user_id b))"
  shows "leastRecentlyBookedUser db [a, b] et bookings r \<longleftrightarrow> r = Inr (Some b)"
proof -
  let ?m = "userIdAndAtCreatedPair db [a, b] (eventType_id et) bookings"
  have ng: "\<not> date_gt (?m (user_id b)) (?m (user_id a))"
    using assms by (cases "?m (user_id a)"; cases "?m (user_id b)") auto
  have cf: "coinFree ?m [a, b]"
    using assms by (simp add: coinFree_iff)
  have "mset [b, a] = mset [a, b]" by simp
  then have "sortOutcome ?m [a, b] [b, a]"
    using ng unfolding sortOutcome_def by (simp add: compareFn_False_neg)
  then have "leastRecentlyBookedUser db [a, b] et bookings (Inr (first [b, a]))"
    unfolding leastRecentlyBookedUser_iff by blast
  then have here: "leastRecentlyBookedUser db [a, b] et bookings (Inr (Some b))" by simp
  show ?thesis
    using here leastRecentlyBookedUser_unique [OF cf] by blast
qed

subsection \<open>The sample inputs evaluated, and the invariant of the pipeline\<close>

lemma sample_organizer_B:
  "organizerIdAndAtCreatedPair (organizersWithLastCreated sampleDb [userB, userC] 7) 2 = Some 100"
  by (simp add: organizerIdAndAtCreatedPair_def organizersWithLastCreated_def
      lastCreated_def organizerBookingMatches_def sampleDb_def userB_def userC_def)

lemma sample_merged:
  "userIdAndAtCreatedPair sampleDb [userB, userC] 7 attendeeHistory 2 = Some 120"
  "userIdAndAtCreatedPair sampleDb [userB, userC] 7 attendeeHistory 3 = Some 0"
  by (simp_all add: userIdAndAtCreatedPair_def organizerIdAndAtCreatedPair_def organizersWithLastCreated_def
      lastCreated_def organizerBookingMatches_def attendeeUserIdAndAtCreatedPair_def attendeeVisit_def
      sampleDb_def userB_def userC_def attendeeHistory_def map_add_def)

lemma early_merged:
  "userIdAndAtCreatedPair earlyDb [userB, userC] 7 [] 2 = Some (- 1)"
  "userIdAndAtCreatedPair earlyDb [userB, userC] 7 [] 3 = Some 0"
  by (simp_all add: userIdAndAtCreatedPair_def organizerIdAndAtCreatedPair_def organizersWithLastCreated_def
      lastCreated_def organizerBookingMatches_def attendeeUserIdAndAtCreatedPair_def
      earlyDb_def userB_def userC_def map_add_def)

lemma sample_candidates_B: "highestPriorityUsers paramsB allBookings = [userB, userC]"
  by (simp add: highestPriorityUsers_def possibleLuckyUsers_def paramsB_def
      getUsersWithHighestPriority_filter effectivePriority_def userB_def userC_def)

lemma zero_weight_candidates:
  "possibleLuckyUsers paramsZero [] = []" "highestPriorityUsers paramsZero [] = []"
proof -
  show a: "possibleLuckyUsers paramsZero [] = []"
    by (simp add: possibleLuckyUsers_def paramsZero_def getUsersBasedOnWeights_eval bookingShortfall_def
        totalWeight_def allWeightAdjustments_def zeroRoster_def userZ1_def userZ2_def js_div_def nullish_def
        userBookings_def Math_max_def)
  show "highestPriorityUsers paramsZero [] = []"
    by (simp add: highestPriorityUsers_def a getUsersWithHighestPriority_def)
qed

lemma two_tiers:
  assumes "priority u1 = Some 1" and "priority u2 = Some 2"
  shows "getUsersWithHighestPriority [u1, u2] = [u2]"
  using assms by (simp add: getUsersWithHighestPriority_filter effectivePriority_def)

text \<open>
  The invariant of the pipeline. When weighting is disabled, or the total weight of the
  roster is not zero and the candidates' weights are safe integers, every stage passes on a non-empty subset of what it received and
  every result of the call is a host of \<open>availableUsers\<close>.
\<close>

lemma pipeline_invariant:
  assumes "getLuckyUser ''MAXIMIZE_AVAILABILITY'' p db allBookings r"
    and "availableUsers p \<noteq> []"
    and "\<not> isRRWeightsEnabled (eventType p)
         \<or> (totalWeight (allRRHosts p) \<noteq> 0
            \<and> (\<forall>u\<in>set (availableUsers p). safeInteger (nullish (weight u) 100)))"
  shows "possibleLuckyUsers p allBookings \<noteq> []
       \<and> set (possibleLuckyUsers p allBookings) \<subseteq> set (availableUsers p)
       \<and> highestPriorityUsers p allBookings \<noteq> []
       \<and> set (highestPriorityUsers p allBookings) \<subseteq> set (possibleLuckyUsers p allBookings)
       \<and> (\<exists>u\<in>set (highestPriorityUsers p allBookings). r = Inr (Some u))
       \<and> (\<exists>u\<in>set (availableUsers p). r = Inr (Some u))"
proof -
  have a: "possibleLuckyUsers p allBookings \<noteq> []"
  proof (cases "isRRWeightsEnabled (eventType p)")
    case True
    with assms(3) have w: "totalWeight (allRRHosts p) \<noteq> 0"
        "\<forall>u\<in>set (availableUsers p). safeInteger (nullish (weight u) 100)"
      by blast+
    have "\<forall>u\<in>set (availableUsers p).
        bookingShortfall (allRRHosts p) allBookings u \<noteq> NaN"
    proof
      fix u assume "u \<in> set (availableUsers p)"
      with w(2) have "safeInteger (nullish (weight u) 100)" by blast
      with w(1) show "bookingShortfall (allRRHosts p) allBookings u \<noteq> NaN"
        by (rule bookingShortfall_not_NaN)
    qed
    then show ?thesis
      using True assms(2) by (simp add: possibleLuckyUsers_def getUsersBasedOnWeights_nonempty)
  next
    case False
    then show ?thesis using assms(2) by (simp add: possibleLuckyUsers_def)
  qed
  have b: "set (possibleLuckyUsers p allBookings) \<subseteq> set (availableUsers p)"
    using getUsersBasedOnWeights_subset by (auto simp: possibleLuckyUsers_def)
  have c: "highestPriorityUsers p allBookings \<noteq> []"
    using a by (simp add: highestPriorityUsers_def getUsersWithHighestPriority_nonempty)
  have d: "set (highestPriorityUsers p allBookings) \<subseteq> set (possibleLuckyUsers p allBookings)"
    unfolding highestPriorityUsers_def by (rule getUsersWithHighestPriority_subset)
  have e: "\<exists>u\<in>set (highestPriorityUsers p allBookings). r = Inr (Some u)"
  proof (cases "length (availableUsers p) = 1")
    case True
    then obtain u where u: "availableUsers p = [u]"
      by (cases "availableUsers p") auto
    have "set (highestPriorityUsers p allBookings) \<subseteq> {u}" using b d u by auto
    with c have "u \<in> set (highestPriorityUsers p allBookings)"
      by (cases "highestPriorityUsers p allBookings") auto
    moreover have "r = Inr (Some u)" using assms(1) u by (simp add: getLuckyUser_def)
    ultimately show ?thesis by blast
  next
    case False
    with assms(1) obtain ys where
      "sortOutcome (userIdAndAtCreatedPair db (highestPriorityUsers p allBookings) (eventType_id (eventType p)) allBookings)
         (highestPriorityUsers p allBookings) ys" and r: "r = Inr (first ys)"
      by (auto simp: getLuckyUser_def leastRecentlyBookedUser_iff)
    then show ?thesis using sortOutcome_first_mem [OF _ c] by auto
  qed
  from e b d have "\<exists>u\<in>set (availableUsers p). r = Inr (Some u)" by blast
  with a b c d e show ?thesis by blast
qed

section \<open>The claims\<close>

text \<open>
  Claim C1 (every stage passes on a non-empty subset, and the host returned is one of
  \<open>availableUsers\<close>) holds whenever weighting is disabled or the total weight of the
  roster is not zero (the weights being safe integers): that is \<open>pipeline_invariant\<close>
  above. The weight stage divides by
  the total weight without a test for zero. For the two hosts of a roster whose weights are
  all zero, with weighting enabled, both shortfalls are \<open>0 / 0 = NaN\<close>, so is their
  maximum, no shortfall is \<open>===\<close> to it, every later stage receives the empty
  array, and the call returns \<open>undefined\<close>.
\<close>

theorem zero_total_weight_returns_no_host:
  "availableUsers paramsZero = [userZ1, userZ2]
   \<and> isRRWeightsEnabled (eventType paramsZero)
   \<and> totalWeight (allRRHosts paramsZero) = 0
   \<and> bookingShortfall zeroRoster [] userZ1 = NaN
   \<and> bookingShortfall zeroRoster [] userZ2 = NaN
   \<and> possibleLuckyUsers paramsZero [] = []
   \<and> highestPriorityUsers paramsZero [] = []
   \<and> getLuckyUser ''MAXIMIZE_AVAILABILITY'' paramsZero sampleDb [] (Inr None)
   \<and> \<not> getLuckyUser ''MAXIMIZE_AVAILABILITY'' paramsZero sampleDb [] (Inr (Some userZ1))
   \<and> \<not> getLuckyUser ''MAXIMIZE_AVAILABILITY'' paramsZero sampleDb [] (Inr (Some userZ2))"
proof -
  have s: "bookingShortfall zeroRoster [] userZ1 = NaN" "bookingShortfall zeroRoster [] userZ2 = NaN"
    by (simp_all add: bookingShortfall_def totalWeight_def allWeightAdjustments_def zeroRoster_def
        userZ1_def userZ2_def js_div_def nullish_def userBookings_def)
  have t: "totalWeight (allRRHosts paramsZero) = 0"
    by (simp add: totalWeight_def paramsZero_def zeroRoster_def nullish_def)
  have l: "length (availableUsers paramsZero) \<noteq> 1" by (simp add: paramsZero_def)
  have "getLuckyUser ''MAXIMIZE_AVAILABILITY'' paramsZero sampleDb [] r \<longleftrightarrow> r = Inr None" for r
    using l by (simp add: getLuckyUser_def zero_weight_candidates leastRecentlyBookedUser_Nil)
  then show ?thesis
    using s t zero_weight_candidates by (simp add: paramsZero_def)
qed




text \<open>
  Claim C3 states that an unrecognised \<open>distributionAlgorithm\<close> makes the call fail
  with a configuration error and return no host. The \<open>switch\<close> has no default
  case and the length test precedes it: with one available user that user is returned,
  and otherwise the call returns \<open>undefined\<close>; no error is thrown.
\<close>

theorem unknown_algorithm_counterexample:
  "getLuckyUser ''MAXIMIZE_FAIRNESS'' paramsOne sampleDb sampleHistory (Inr (Some userA))
   \<and> getLuckyUser ''MAXIMIZE_FAIRNESS'' paramsA sampleDb sampleHistory (Inr None)
   \<and> \<not> getLuckyUser ''MAXIMIZE_FAIRNESS'' paramsA sampleDb sampleHistory (Inl UnableToFindUsers)"
  by (simp add: getLuckyUser_def paramsOne_def paramsA_def)

text \<open>
  Claim C3, as amended. For a \<open>distributionAlgorithm\<close> other than
  \<open>MAXIMIZE_AVAILABILITY\<close> the call throws nothing: it returns the only available
  user when there is exactly one, and \<open>undefined\<close> otherwise.
\<close>

theorem unknown_algorithm_returns_without_error:
  assumes "distributionAlgorithm \<noteq> ''MAXIMIZE_AVAILABILITY''"
  shows "getLuckyUser distributionAlgorithm p db allBookings r \<longleftrightarrow>
     r = Inr (if length (availableUsers p) = 1 then first (availableUsers p) else None)"
  using assms by (simp add: getLuckyUser_def)

theorem unknown_algorithm_returns_without_error_witness:
  "getLuckyUser ''ROUND_ROBIN'' paramsOne sampleDb sampleHistory (Inr (Some userA))
   \<and> getLuckyUser ''ROUND_ROBIN'' paramsB sampleDb sampleHistory (Inr None)"
  using unknown_algorithm_returns_without_error [of "''ROUND_ROBIN''" paramsOne sampleDb sampleHistory "Inr (Some userA)"]
    unknown_algorithm_returns_without_error [of "''ROUND_ROBIN''" paramsB sampleDb sampleHistory "Inr None"]
  by (simp add: paramsOne_def paramsB_def)

text \<open>
  Claim C4. Let the bookings be scanned from the most recent on, and let \<open>t0\<close> be
  the organizer timestamp of a candidate. The merged timestamp of the candidate is the
  creation time of the first booking of the scan that lists the candidate's address among
  its attendees and was created strictly after \<open>t0\<close>, and \<open>t0\<close> when there
  is no such booking; that booking is the most recent of its kind. (A booking created
  exactly at \<open>t0\<close> passes the test of the scan as well and leaves the merged
  timestamp at \<open>t0\<close>.)
\<close>

theorem attendee_recency_overrides:
  assumes "u \<in> set users" and "inj_on user_id (set users)"
    and "sorted_wrt (\<lambda>a b. createdAt b \<le> createdAt a) allBookings"
    and "organizerIdAndAtCreatedPair (organizersWithLastCreated db users etId) (user_id u) = Some t0"
  shows "userIdAndAtCreatedPair db users etId allBookings (user_id u)
           = (case mostRecentAttendeeBooking t0 u allBookings of
                None \<Rightarrow> Some t0 | Some b \<Rightarrow> Some (createdAt b))
       \<and> (\<forall>b. mostRecentAttendeeBooking t0 u allBookings = Some b \<longrightarrow>
             b \<in> set allBookings
             \<and> Some (email u) \<in> attendee_email ` set (attendees b) \<and> t0 < createdAt b
             \<and> (\<forall>b'\<in>set allBookings.
                   Some (email u) \<in> attendee_email ` set (attendees b') \<and> t0 < createdAt b'
                   \<longrightarrow> createdAt b' \<le> createdAt b))"
proof -
  let ?org = "organizerIdAndAtCreatedPair (organizersWithLastCreated db users etId)"
  let ?strict = "\<lambda>b. Some (email u) \<in> attendee_email ` set (attendees b) \<and> t0 < createdAt b"
  have c: "considered ?org (user_id u) (email u) =
      (\<lambda>b. Some (email u) \<in> attendee_email ` set (attendees b) \<and> \<not> createdAt b < t0)"
    by (simp add: considered_def fun_eq_iff assms(4))
  have "userIdAndAtCreatedPair db users etId allBookings (user_id u) =
      (case find (\<lambda>b. Some (email u) \<in> attendee_email ` set (attendees b) \<and> \<not> createdAt b < t0) allBookings of
         None \<Rightarrow> Some t0 | Some b \<Rightarrow> Some (createdAt b))"
    unfolding merged_lookup attendeeUserIdAndAtCreatedPair_find [OF assms(2,1)] c
    by (simp add: assms(4) split: option.splits)
  then have first: "userIdAndAtCreatedPair db users etId allBookings (user_id u)
           = (case mostRecentAttendeeBooking t0 u allBookings of
                None \<Rightarrow> Some t0 | Some b \<Rightarrow> Some (createdAt b))"
    unfolding mostRecentAttendeeBooking_def using find_strict_after [OF assms(3)] by simp
  have second: "b \<in> set allBookings \<and> ?strict b
      \<and> (\<forall>b'\<in>set allBookings. ?strict b' \<longrightarrow> createdAt b' \<le> createdAt b)"
    if f: "find ?strict allBookings = Some b" for b
  proof -
    have "b \<in> set allBookings \<and> ?strict b"
      using f by (rule find_SomeD)
    moreover have "\<forall>b'\<in>set allBookings. ?strict b' \<longrightarrow> createdAt b' \<le> createdAt b"
      using find_sorted_most_recent [OF assms(3) f] by blast
    ultimately show ?thesis by blast
  qed
  show ?thesis
    using first second unfolding mostRecentAttendeeBooking_def by blast
qed

theorem attendee_recency_overrides_witness:
  "organizerIdAndAtCreatedPair (organizersWithLastCreated sampleDb [userB, userC] 7) (user_id userB) = Some 100
   \<and> userIdAndAtCreatedPair sampleDb [userB, userC] 7 attendeeHistory (user_id userB) = Some 120"
proof -
  have u: "user_id userB = 2" by (simp add: userB_def)
  have m: "userB \<in> set [userB, userC]" by simp
  have i: "inj_on user_id (set [userB, userC])" by (simp add: userB_def userC_def)
  have s: "sorted_wrt (\<lambda>a b. createdAt b \<le> createdAt a) attendeeHistory"
    by (simp add: attendeeHistory_def)
  have o: "organizerIdAndAtCreatedPair (organizersWithLastCreated sampleDb [userB, userC] 7) (user_id userB) = Some 100"
    using sample_organizer_B by (simp add: u)
  have f: "mostRecentAttendeeBooking 100 userB attendeeHistory = Some (hd attendeeHistory)"
    by (simp add: mostRecentAttendeeBooking_def attendeeHistory_def userB_def)
  have "createdAt (hd attendeeHistory) = 120" by (simp add: attendeeHistory_def)
  then show ?thesis
    using attendee_recency_overrides [OF m i s o] o f by simp
qed

text \<open>
  Claim C5. The priority filter returns exactly the candidates whose effective priority
  (2 when the priority is missing) is the greatest effective priority among the
  candidates; a candidate with the explicit priority 2 and one with no priority are
  kept or dropped together; and the output is empty only for the empty input.
\<close>

theorem priority_filter_keeps_highest:
  "getUsersWithHighestPriority users
     = filter (\<lambda>u. effectivePriority u = Max (effectivePriority ` set users)) users
   \<and> ((getUsersWithHighestPriority users = []) = (users = []))
   \<and> (\<forall>u\<in>set users. \<forall>v\<in>set users. priority u = Some 2 \<and> priority v = None \<longrightarrow>
         (u \<in> set (getUsersWithHighestPriority users)) = (v \<in> set (getUsersWithHighestPriority users)))"
proof -
  have "effectivePriority u = effectivePriority v" if "priority u = Some 2" "priority v = None" for u v
    using that by (simp add: effectivePriority_def)
  then show ?thesis
    by (simp add: getUsersWithHighestPriority_nonempty)
       (auto simp: getUsersWithHighestPriority_filter)
qed

theorem priority_filter_keeps_highest_witness:
  "getUsersWithHighestPriority [userA, userB, userC] = [userB, userC]
   \<and> getUsersWithHighestPriority [userA, userB, userC] \<noteq> []"
  using priority_filter_keeps_highest [of "[userA, userB, userC]"]
  by (simp add: effectivePriority_def userA_def userB_def userC_def)

text \<open>
  Claim C6 (scenario A) states that of U1 with priority 1 and U2 with priority 2 only U1
  survives the priority filter and is chosen. The filter keeps the numerically greatest
  priority: on \<open>userA\<close> (priority 1) and \<open>userB\<close> (priority 2) it keeps
  \<open>userB\<close>, and \<open>userB\<close> is the only result of the call.
\<close>

theorem scenario_A_counterexample:
  "priority userA = Some 1 \<and> priority userB = Some 2
   \<and> getUsersWithHighestPriority [userA, userB] = [userB]
   \<and> getLuckyUser ''MAXIMIZE_AVAILABILITY'' paramsA sampleDb sampleHistory (Inr (Some userB))
   \<and> \<not> getLuckyUser ''MAXIMIZE_AVAILABILITY'' paramsA sampleDb sampleHistory (Inr (Some userA))"
proof -
  have p: "priority userA = Some 1" "priority userB = Some 2"
    by (simp_all add: userA_def userB_def)
  have hp: "highestPriorityUsers paramsA sampleHistory = [userB]"
    by (simp add: highestPriorityUsers_def possibleLuckyUsers_def paramsA_def two_tiers [OF p])
  have "userA \<noteq> userB" by (simp add: userA_def userB_def)
  then show ?thesis
    using p two_tiers [OF p]
    by (simp add: getLuckyUser_def hp leastRecentlyBookedUser_single) (simp add: paramsA_def)
qed

text \<open>
  Claim C6, as amended. For the candidates U1 with priority 1 and U2 with priority 2 and
  weighting disabled, only U2 survives the priority filter, whatever the booking history,
  and the call returns U2.
\<close>

theorem scenario_A_higher_value_wins:
  assumes "availableUsers p = [u1, u2]" and "priority u1 = Some 1" and "priority u2 = Some 2"
    and "\<not> isRRWeightsEnabled (eventType p)"
  shows "highestPriorityUsers p allBookings = [u2]
       \<and> (getLuckyUser ''MAXIMIZE_AVAILABILITY'' p db allBookings r \<longleftrightarrow> r = Inr (Some u2))"
proof -
  have hp: "highestPriorityUsers p allBookings = [u2]"
    using assms by (simp add: highestPriorityUsers_def possibleLuckyUsers_def two_tiers)
  then show ?thesis
    using assms(1) by (simp add: getLuckyUser_def leastRecentlyBookedUser_single)
qed

theorem scenario_A_higher_value_wins_witness:
  "highestPriorityUsers paramsA attendeeHistory = [userB]
   \<and> getLuckyUser ''MAXIMIZE_AVAILABILITY'' paramsA earlyDb attendeeHistory (Inr (Some userB))"
  using scenario_A_higher_value_wins [of paramsA userA userB attendeeHistory earlyDb "Inr (Some userB)"]
  by (simp add: paramsA_def userA_def userB_def)

text \<open>
  Claim C7 states that a candidate without bookings receives the earliest representable
  time and so never sorts after a candidate with a booking. The value is
  \<open>new Date(0)\<close>, the Unix epoch, and a \<open>Date\<close> can lie before it: against a
  host whose last booking was created one millisecond before the epoch, the comparison
  function returns 1 for the candidate without bookings, whatever the coin, and the host
  with the booking is chosen.
\<close>

theorem never_booked_counterexample:
  "userIdAndAtCreatedPair earlyDb [userB, userC] 7 [] (user_id userC) = Some 0
   \<and> userIdAndAtCreatedPair earlyDb [userB, userC] 7 [] (user_id userB) = Some (- 1)
   \<and> compareFn (userIdAndAtCreatedPair earlyDb [userB, userC] 7 []) False userC userB = 1
   \<and> compareFn (userIdAndAtCreatedPair earlyDb [userB, userC] 7 []) True userC userB = 1
   \<and> getLuckyUser ''MAXIMIZE_AVAILABILITY'' paramsB earlyDb [] (Inr (Some userB))
   \<and> \<not> getLuckyUser ''MAXIMIZE_AVAILABILITY'' paramsB earlyDb [] (Inr (Some userC))"
proof -
  have ids: "user_id userB = 2" "user_id userC = 3" by (simp_all add: userB_def userC_def)
  have hp: "highestPriorityUsers paramsB [] = [userB, userC]"
    by (simp add: highestPriorityUsers_def possibleLuckyUsers_def paramsB_def
        getUsersWithHighestPriority_filter effectivePriority_def userB_def userC_def)
  have et: "eventType_id (eventType paramsB) = 7" by (simp add: paramsB_def)
  have ne: "userB \<noteq> userC" by (simp add: userB_def userC_def)
  have "leastRecentlyBookedUser earlyDb [userB, userC] (eventType paramsB) [] r \<longleftrightarrow> r = Inr (Some userB)" for r
    by (rule leastRecentlyBookedUser_pair) (simp add: et ids early_merged)
  then have "getLuckyUser ''MAXIMIZE_AVAILABILITY'' paramsB earlyDb [] r \<longleftrightarrow> r = Inr (Some userB)" for r
    by (simp add: getLuckyUser_def hp) (simp add: paramsB_def)
  then show ?thesis
    using ne by (simp add: ids early_merged compareFn_def)
qed

text \<open>
  Claim C7, as amended. A candidate that is a row of the user table, has no booking
  matched by the organizer query and is listed by no booking among the attendees receives
  the Unix epoch (time value 0) as merged timestamp. When no booking was created before
  the epoch, the comparison function never places that candidate after another one: it
  returns -1, or it flips the coin against a candidate whose merged timestamp is the
  epoch too or is missing.
\<close>

theorem never_booked_sorts_first:
  assumes "u \<in> set users" and "inj_on user_id (set users)"
    and "user_id u \<in> db_id ` set db"
    and "\<forall>r\<in>set db. db_id r = user_id u \<longrightarrow> \<not> list_ex (organizerBookingMatches etId) (db_bookings r)"
    and "\<forall>b\<in>set allBookings. Some (email u) \<notin> attendee_email ` set (attendees b)"
    and "\<forall>r\<in>set db. \<forall>b\<in>set (db_bookings r). 0 \<le> db_createdAt b"
    and "\<forall>b\<in>set allBookings. 0 \<le> createdAt b"
  shows "userIdAndAtCreatedPair db users etId allBookings (user_id u) = Some 0
       \<and> (\<forall>v. \<not> date_gt (userIdAndAtCreatedPair db users etId allBookings (user_id u))
                        (userIdAndAtCreatedPair db users etId allBookings (user_id v)))
       \<and> (\<forall>v coin. compareFn (userIdAndAtCreatedPair db users etId allBookings) coin u v = - 1
             \<or> (coin \<and> userIdAndAtCreatedPair db users etId allBookings (user_id v) \<in> {None, Some 0}))"
proof -
  let ?m = "userIdAndAtCreatedPair db users etId allBookings"
  have e: "?m (user_id u) = Some 0"
    using assms(1-5) by (rule never_booked_epoch)
  have nonneg: "0 \<le> t" if "?m k = Some t" for k t
    using merged_value [OF that] assms(6,7) by auto
  have ng: "\<not> date_gt (?m (user_id u)) (?m (user_id v))" for v
    using nonneg [of "user_id v"] by (cases "?m (user_id v)") (auto simp: e)
  have "compareFn ?m coin u v = - 1 \<or> (coin \<and> ?m (user_id v) \<in> {None, Some 0})" for v coin
  proof (cases "?m (user_id v)")
    case None
    then show ?thesis by (simp add: compareFn_def e)
  next
    case (Some t)
    with nonneg have "0 \<le> t" by blast
    with Some show ?thesis by (auto simp: compareFn_def e)
  qed
  with e ng show ?thesis by blast
qed

theorem never_booked_sorts_first_witness:
  "userIdAndAtCreatedPair sampleDb [userB, userC] 7 attendeeHistory (user_id userC) = Some 0
   \<and> userIdAndAtCreatedPair sampleDb [userB, userC] 7 attendeeHistory (user_id userB) = Some 120
   \<and> compareFn (userIdAndAtCreatedPair sampleDb [userB, userC] 7 attendeeHistory) True userC userB = - 1"
proof -
  have m: "userC \<in> set [userB, userC]" by simp
  have i: "inj_on user_id (set [userB, userC])" by (simp add: userB_def userC_def)
  have d: "user_id userC \<in> db_id ` set sampleDb" by (simp add: userC_def sampleDb_def)
  have o: "\<forall>r\<in>set sampleDb. db_id r = user_id userC \<longrightarrow> \<not> list_ex (organizerBookingMatches 7) (db_bookings r)"
    by (simp add: userC_def sampleDb_def)
  have a: "\<forall>b\<in>set attendeeHistory. Some (email userC) \<notin> attendee_email ` set (attendees b)"
    by (simp add: userC_def attendeeHistory_def)
  have n1: "\<forall>r\<in>set sampleDb. \<forall>b\<in>set (db_bookings r). 0 \<le> db_createdAt b"
    by (simp add: sampleDb_def)
  have n2: "\<forall>b\<in>set attendeeHistory. 0 \<le> createdAt b"
    by (simp add: attendeeHistory_def)
  have b: "userIdAndAtCreatedPair sampleDb [userB, userC] 7 attendeeHistory (user_id userB) = Some 120"
    using sample_merged(1) by (simp add: userB_def)
  from never_booked_sorts_first [OF m i d o a n1 n2]
  have e: "userIdAndAtCreatedPair sampleDb [userB, userC] 7 attendeeHistory (user_id userC) = Some 0"
    and c: "compareFn (userIdAndAtCreatedPair sampleDb [userB, userC] 7 attendeeHistory) True userC userB = - 1
        \<or> (True \<and> userIdAndAtCreatedPair sampleDb [userB, userC] 7 attendeeHistory (user_id userB) \<in> {None, Some 0})"
    by blast+
  from c b have "compareFn (userIdAndAtCreatedPair sampleDb [userB, userC] 7 attendeeHistory) True userC userB = - 1"
    by simp
  with e b show ?thesis by simp
qed

text \<open>
  Claim C8. When weighting is disabled for the event type, the candidates passed to the
  priority filter are \<open>availableUsers\<close>, unchanged.
\<close>

theorem weights_disabled_skips_filter:
  assumes "\<not> isRRWeightsEnabled (eventType p)"
  shows "possibleLuckyUsers p allBookings = availableUsers p
       \<and> highestPriorityUsers p allBookings = getUsersWithHighestPriority (availableUsers p)"
  using assms by (simp add: possibleLuckyUsers_def highestPriorityUsers_def)

theorem weights_disabled_skips_filter_witness:
  "possibleLuckyUsers paramsA sampleHistory = [userA, userB]"
  using weights_disabled_skips_filter [of paramsA sampleHistory]
  by (simp add: paramsA_def)

text \<open>
  Claim C9. Two runs on the same inputs return the same result when no two of the
  candidates that reach the recency stage have equal merged timestamps, every such
  candidate being a row of the user table (so that it has a merged timestamp).
\<close>

theorem no_ties_deterministic:
  assumes "getLuckyUser distributionAlgorithm p db allBookings r1"
    and "getLuckyUser distributionAlgorithm p db allBookings r2"
    and "user_id ` set (highestPriorityUsers p allBookings) \<subseteq> db_id ` set db"
    and "distinct (map (\<lambda>u. userIdAndAtCreatedPair db (highestPriorityUsers p allBookings)
            (eventType_id (eventType p)) allBookings (user_id u)) (highestPriorityUsers p allBookings))"
  shows "r1 = r2"
proof -
  let ?hp = "highestPriorityUsers p allBookings"
  let ?m = "userIdAndAtCreatedPair db ?hp (eventType_id (eventType p)) allBookings"
  have "\<forall>u\<in>set ?hp. ?m (user_id u) \<noteq> None"
  proof
    fix u assume u: "u \<in> set ?hp"
    then have "user_id u \<in> db_id ` set db" "user_id u \<in> user_id ` set ?hp"
      using assms(3) by auto
    then show "?m (user_id u) \<noteq> None" by (rule merged_defined)
  qed
  then have cf: "coinFree ?m ?hp"
    using assms(4) by (rule noTies_coinFree)
  show ?thesis
  proof (cases "length (availableUsers p) \<noteq> 1 \<and> distributionAlgorithm = ''MAXIMIZE_AVAILABILITY''")
    case True
    then show ?thesis
      using assms(1,2) leastRecentlyBookedUser_unique [OF cf] by (simp add: getLuckyUser_def)
  next
    case False
    then show ?thesis
      using assms(1,2) by (auto simp: getLuckyUser_def split: if_splits)
  qed
qed

theorem no_ties_deterministic_witness:
  "getLuckyUser ''MAXIMIZE_AVAILABILITY'' paramsB sampleDb attendeeHistory (Inr (Some userC))
   \<and> \<not> getLuckyUser ''MAXIMIZE_AVAILABILITY'' paramsB sampleDb attendeeHistory (Inr (Some userB))"
proof -
  have ids: "user_id userB = 2" "user_id userC = 3" by (simp_all add: userB_def userC_def)
  have et: "eventType_id (eventType paramsB) = 7" by (simp add: paramsB_def)
  have l: "length (availableUsers paramsB) \<noteq> 1" by (simp add: paramsB_def)
  have "leastRecentlyBookedUser sampleDb [userB, userC] (eventType paramsB) attendeeHistory (Inr (Some userC))"
    using leastRecentlyBookedUser_pair_swapped [of sampleDb userB userC "eventType paramsB" attendeeHistory]
    by (simp add: et ids sample_merged)
  then have here: "getLuckyUser ''MAXIMIZE_AVAILABILITY'' paramsB sampleDb attendeeHistory (Inr (Some userC))"
    using l by (simp add: getLuckyUser_def sample_candidates_B)
  have rows: "user_id ` set (highestPriorityUsers paramsB attendeeHistory) \<subseteq> db_id ` set sampleDb"
    by (simp add: sample_candidates_B ids sampleDb_def)
  have dist: "distinct (map (\<lambda>u. userIdAndAtCreatedPair sampleDb (highestPriorityUsers paramsB attendeeHistory)
            (eventType_id (eventType paramsB)) attendeeHistory (user_id u)) (highestPriorityUsers paramsB attendeeHistory))"
    by (simp add: sample_candidates_B et ids sample_merged)
  have "userB \<noteq> userC" by (simp add: userB_def userC_def)
  then have "\<not> getLuckyUser ''MAXIMIZE_AVAILABILITY'' paramsB sampleDb attendeeHistory (Inr (Some userB))"
    using no_ties_deterministic [OF here _ rows dist, of "Inr (Some userB)"] by auto
  with here show ?thesis by simp
qed

text \<open>
  Claim C10. When \<open>availableUsers\<close> is empty, every stage passes the empty array
  on and the call returns \<open>undefined\<close>; it throws nothing, whatever the algorithm
  named.
\<close>

theorem empty_input_returns_undefined:
  assumes "availableUsers p = []"
  shows "possibleLuckyUsers p allBookings = [] \<and> highestPriorityUsers p allBookings = []
       \<and> (getLuckyUser distributionAlgorithm p db allBookings r \<longleftrightarrow> r = Inr None)"
proof -
  have a: "possibleLuckyUsers p allBookings = []"
    using assms by (simp add: possibleLuckyUsers_def)
  then have b: "highestPriorityUsers p allBookings = []"
    by (simp add: highestPriorityUsers_def getUsersWithHighestPriority_def)
  have "getLuckyUser distributionAlgorithm p db allBookings r \<longleftrightarrow> r = Inr None"
    using assms by (simp add: getLuckyUser_def b leastRecentlyBookedUser_Nil)
  with a b show ?thesis by simp
qed

theorem empty_input_returns_undefined_witness:
  "getLuckyUser ''MAXIMIZE_AVAILABILITY'' paramsEmpty sampleDb sampleHistory (Inr None)
   \<and> \<not> getLuckyUser ''MAXIMIZE_AVAILABILITY'' paramsEmpty sampleDb sampleHistory (Inl UnableToFindUsers)"
  using empty_input_returns_undefined [of paramsEmpty sampleHistory "''MAXIMIZE_AVAILABILITY''" sampleDb]
  by (simp add: paramsEmpty_def)

end
